theory Spec2Isabelle
  imports Main "HOL-Library.Char_ord" "HOL-Library.List_Lexorder"
begin

section \<open>Data model (prisma/migrations/20260208210000_init/migration.sql)\<close>

text \<open>
  Identifiers are the TEXT primary keys of the three tables; timestamps are instants in
  milliseconds. The urgency column is TEXT holding one of the three tokens of
  \<open>UrgencySchema\<close>.
\<close>

type_synonym ident = string
type_synonym instant = nat

datatype urgency = LAAG | MIDDEN | HOOG

fun urgencyText :: "urgency \<Rightarrow> string" where
  "urgencyText LAAG = ''LAAG''"
| "urgencyText MIDDEN = ''MIDDEN''"
| "urgencyText HOOG = ''HOOG''"

record project =
  p_id :: ident
  p_name :: string
  p_createdAt :: instant
  p_updatedAt :: instant
  p_deletedAt :: "instant option"

record goal =
  g_id :: ident
  g_projectId :: ident
  g_name :: string
  g_createdAt :: instant
  g_updatedAt :: instant
  g_deletedAt :: "instant option"

record task =
  t_id :: ident
  t_goalId :: ident
  t_name :: string
  t_completed :: bool
  t_urgency :: urgency
  t_todaysFocus :: bool
  t_createdAt :: instant
  t_updatedAt :: instant
  t_completedAt :: "instant option"
  t_deletedAt :: "instant option"

text \<open>
  The store behind the \<open>prisma\<close> handle: the three tables in insertion order, and the
  parts of the environment the handlers read. \<open>clock\<close> is the last reading of the wall
  clock and \<open>ticks\<close> the amounts by which it will have advanced at the next readings
  (\<open>new Date()\<close> in a handler, the column defaults and \<open>updatedAt\<close> inside a statement).
  \<open>nextId\<close> numbers the identifiers handed out by the id default. \<open>writesUntilFailure\<close>
  is the number of write statements the database will still accept before one fails
  (\<open>None\<close>: it never fails).
\<close>

record store =
  projects :: "project list"
  goals :: "goal list"
  tasks :: "task list"
  clock :: instant
  ticks :: "nat list"
  nextId :: nat
  writesUntilFailure :: "nat option"

datatype error =
    NotFoundError string ident
  | RecordNotFound
  | ForeignKeyViolation
  | InvalidArgument
  | StoreFailure

text \<open>
  A handler either throws, leaving the store as it was at the throw, or returns a value
  and the store.
\<close>

type_synonym 'a outcome = "(error \<times> store) + 'a"

section \<open>The environment: clock, identifiers, failing statements\<close>

definition now :: "store \<Rightarrow> instant \<times> store" where
  "now s =
     (case ticks s of
        [] \<Rightarrow> (clock s, s)
      | d # ds \<Rightarrow> (clock s + d, s\<lparr>clock := clock s + d, ticks := ds\<rparr>))"

text \<open>The n-th identifier of the id default: a non-empty token, different for each n.\<close>

definition cuid :: "nat \<Rightarrow> ident" where
  "cuid n = CHR ''c'' # replicate n (CHR ''k'')"

definition statement :: "store \<Rightarrow> store outcome" where
  "statement s =
     (case writesUntilFailure s of
        None \<Rightarrow> Inr s
      | Some 0 \<Rightarrow> Inl (StoreFailure, s)
      | Some (Suc n) \<Rightarrow> Inr (s\<lparr>writesUntilFailure := Some n\<rparr>))"

text \<open>
  \<open>prisma.$transaction\<close>: the writes of the body become visible together, or, when the
  body throws, not at all. The clock and the other parts of the environment are not
  rolled back.
\<close>

definition transaction :: "(store \<Rightarrow> store outcome) \<Rightarrow> store \<Rightarrow> store outcome" where
  "transaction body s =
     (case body s of
        Inl (e, s') \<Rightarrow> Inl (e, s'\<lparr>projects := projects s, goals := goals s, tasks := tasks s\<rparr>)
      | Inr s' \<Rightarrow> Inr s')"

section \<open>The statements of the store\<close>

text \<open>
  Each write is one statement: it is refused as a whole when the database fails, it reads
  the clock once for the \<open>createdAt\<close> default and for \<open>updatedAt\<close>, and a nested create
  inserts the parent and its children together. The \<open>data\<close> of an update is the change it
  makes to a row.
\<close>

type_synonym taskData = "string \<times> bool \<times> urgency \<times> bool \<times> instant option"

definition mkTask :: "ident \<Rightarrow> ident \<Rightarrow> instant \<Rightarrow> taskData \<Rightarrow> task" where
  "mkTask i gid t d =
     (case d of (n, c, u, f, ca) \<Rightarrow>
        \<lparr>t_id = i, t_goalId = gid, t_name = n, t_completed = c, t_urgency = u,
         t_todaysFocus = f, t_createdAt = t, t_updatedAt = t, t_completedAt = ca,
         t_deletedAt = None\<rparr>)"

definition mkGoal :: "ident \<Rightarrow> ident \<Rightarrow> instant \<Rightarrow> string \<Rightarrow> goal" where
  "mkGoal i pid t n =
     \<lparr>g_id = i, g_projectId = pid, g_name = n, g_createdAt = t, g_updatedAt = t,
      g_deletedAt = None\<rparr>"

definition mkProject :: "ident \<Rightarrow> instant \<Rightarrow> string \<Rightarrow> project" where
  "mkProject i t n =
     \<lparr>p_id = i, p_name = n, p_createdAt = t, p_updatedAt = t, p_deletedAt = None\<rparr>"

fun mkTasks :: "nat \<Rightarrow> ident \<Rightarrow> instant \<Rightarrow> taskData list \<Rightarrow> task list" where
  "mkTasks k gid t [] = []"
| "mkTasks k gid t (d # ds) = mkTask (cuid k) gid t d # mkTasks (Suc k) gid t ds"

fun mkGoals :: "nat \<Rightarrow> ident \<Rightarrow> instant \<Rightarrow> (string \<times> taskData list) list
    \<Rightarrow> goal list \<times> task list" where
  "mkGoals k pid t [] = ([], [])"
| "mkGoals k pid t ((n, ds) # rest) =
     (case mkGoals (Suc k + length ds) pid t rest of
        (gs, ts) \<Rightarrow> (mkGoal (cuid k) pid t n # gs, mkTasks (Suc k) (cuid k) t ds @ ts))"

definition subtreeSize :: "(string \<times> taskData list) list \<Rightarrow> nat" where
  "subtreeSize gds = length gds + sum_list (map (\<lambda>gd. length (snd gd)) gds)"

definition project_create :: "string \<Rightarrow> (string \<times> taskData list) list \<Rightarrow> store
    \<Rightarrow> store outcome" where
  "project_create n gds s =
     (case statement s of
        Inl e \<Rightarrow> Inl e
      | Inr s1 \<Rightarrow>
          (case now s1 of (t, s2) \<Rightarrow>
             (case mkGoals (Suc (nextId s2)) (cuid (nextId s2)) t gds of (gs, ts) \<Rightarrow>
                Inr (s2\<lparr>projects := projects s2 @ [mkProject (cuid (nextId s2)) t n],
                        goals := goals s2 @ gs,
                        tasks := tasks s2 @ ts,
                        nextId := Suc (nextId s2) + subtreeSize gds\<rparr>))))"

definition goal_create :: "ident \<Rightarrow> string \<Rightarrow> taskData list \<Rightarrow> store \<Rightarrow> store outcome" where
  "goal_create pid n ds s =
     (case statement s of
        Inl e \<Rightarrow> Inl e
      | Inr s1 \<Rightarrow>
          (case find (\<lambda>p. p_id p = pid) (projects s1) of
             None \<Rightarrow> Inl (ForeignKeyViolation, s1)
           | Some _ \<Rightarrow>
               (case now s1 of (t, s2) \<Rightarrow>
                  Inr (s2\<lparr>goals := goals s2 @ [mkGoal (cuid (nextId s2)) pid t n],
                          tasks := tasks s2 @ mkTasks (Suc (nextId s2)) (cuid (nextId s2)) t ds,
                          nextId := Suc (nextId s2) + length ds\<rparr>))))"

definition task_create :: "ident \<Rightarrow> taskData \<Rightarrow> store \<Rightarrow> store outcome" where
  "task_create gid d s =
     (case statement s of
        Inl e \<Rightarrow> Inl e
      | Inr s1 \<Rightarrow>
          (case find (\<lambda>g. g_id g = gid) (goals s1) of
             None \<Rightarrow> Inl (ForeignKeyViolation, s1)
           | Some _ \<Rightarrow>
               (case now s1 of (t, s2) \<Rightarrow>
                  Inr (s2\<lparr>tasks := tasks s2 @ [mkTask (cuid (nextId s2)) gid t d],
                          nextId := Suc (nextId s2)\<rparr>))))"

definition project_update :: "ident \<Rightarrow> (project \<Rightarrow> project) \<Rightarrow> store \<Rightarrow> store outcome" where
  "project_update pid data s =
     (case statement s of
        Inl e \<Rightarrow> Inl e
      | Inr s1 \<Rightarrow>
          (case find (\<lambda>p. p_id p = pid) (projects s1) of
             None \<Rightarrow> Inl (RecordNotFound, s1)
           | Some _ \<Rightarrow>
               (case now s1 of (t, s2) \<Rightarrow>
                  Inr (s2\<lparr>projects :=
                         map (\<lambda>p. if p_id p = pid then (data p)\<lparr>p_updatedAt := t\<rparr> else p)
                           (projects s2)\<rparr>))))"

definition goal_update :: "ident \<Rightarrow> (goal \<Rightarrow> goal) \<Rightarrow> store \<Rightarrow> store outcome" where
  "goal_update gid data s =
     (case statement s of
        Inl e \<Rightarrow> Inl e
      | Inr s1 \<Rightarrow>
          (case find (\<lambda>g. g_id g = gid) (goals s1) of
             None \<Rightarrow> Inl (RecordNotFound, s1)
           | Some _ \<Rightarrow>
               (case now s1 of (t, s2) \<Rightarrow>
                  Inr (s2\<lparr>goals :=
                         map (\<lambda>g. if g_id g = gid then (data g)\<lparr>g_updatedAt := t\<rparr> else g)
                           (goals s2)\<rparr>))))"

definition task_update :: "ident \<Rightarrow> (task \<Rightarrow> task) \<Rightarrow> store \<Rightarrow> store outcome" where
  "task_update tid data s =
     (case statement s of
        Inl e \<Rightarrow> Inl e
      | Inr s1 \<Rightarrow>
          (case find (\<lambda>t. t_id t = tid) (tasks s1) of
             None \<Rightarrow> Inl (RecordNotFound, s1)
           | Some _ \<Rightarrow>
               (case now s1 of (t, s2) \<Rightarrow>
                  Inr (s2\<lparr>tasks :=
                         map (\<lambda>r. if t_id r = tid then (data r)\<lparr>t_updatedAt := t\<rparr> else r)
                           (tasks s2)\<rparr>))))"

definition goal_updateMany :: "(goal \<Rightarrow> bool) \<Rightarrow> (goal \<Rightarrow> goal) \<Rightarrow> store \<Rightarrow> store outcome" where
  "goal_updateMany wh data s =
     (case statement s of
        Inl e \<Rightarrow> Inl e
      | Inr s1 \<Rightarrow>
          (case now s1 of (t, s2) \<Rightarrow>
             Inr (s2\<lparr>goals :=
                    map (\<lambda>g. if wh g then (data g)\<lparr>g_updatedAt := t\<rparr> else g) (goals s2)\<rparr>)))"

definition task_updateMany :: "(task \<Rightarrow> bool) \<Rightarrow> (task \<Rightarrow> task) \<Rightarrow> store \<Rightarrow> store outcome" where
  "task_updateMany wh data s =
     (case statement s of
        Inl e \<Rightarrow> Inl e
      | Inr s1 \<Rightarrow>
          (case now s1 of (t, s2) \<Rightarrow>
             Inr (s2\<lparr>tasks :=
                    map (\<lambda>r. if wh r then (data r)\<lparr>t_updatedAt := t\<rparr> else r) (tasks s2)\<rparr>)))"

section \<open>Reads\<close>

text \<open>
  \<open>orderBy\<close> lists the columns with their directions; rows that agree on all of them
  keep the order of the table. A column with its direction is the relation "sorts
  strictly before".
\<close>

datatype sortOrder = asc | desc

definition byKey :: "('a \<Rightarrow> 'k::linorder) \<Rightarrow> sortOrder \<Rightarrow> 'a \<Rightarrow> 'a \<Rightarrow> bool" where
  "byKey f d a b = (case d of asc \<Rightarrow> f a < f b | desc \<Rightarrow> f b < f a)"

fun sortsBefore :: "('a \<Rightarrow> 'a \<Rightarrow> bool) list \<Rightarrow> 'a \<Rightarrow> 'a \<Rightarrow> bool" where
  "sortsBefore [] a b = False"
| "sortsBefore (c # cs) a b = (c a b \<or> (\<not> c b a \<and> sortsBefore cs a b))"

fun insertBy :: "('a \<Rightarrow> 'a \<Rightarrow> bool) list \<Rightarrow> 'a \<Rightarrow> 'a list \<Rightarrow> 'a list" where
  "insertBy cs x [] = [x]"
| "insertBy cs x (y # ys) =
     (if sortsBefore cs y x then y # insertBy cs x ys else x # y # ys)"

definition orderBy :: "('a \<Rightarrow> 'a \<Rightarrow> bool) list \<Rightarrow> 'a list \<Rightarrow> 'a list" where
  "orderBy cs xs = foldr (insertBy cs) xs []"

definition taskListOrder :: "(task \<Rightarrow> task \<Rightarrow> bool) list" where
  "taskListOrder = [byKey t_todaysFocus desc, byKey t_completed asc, byKey t_createdAt desc]"

definition todaysOrder :: "(task \<Rightarrow> task \<Rightarrow> bool) list" where
  "todaysOrder =
     [byKey t_completed asc, byKey (\<lambda>t. urgencyText (t_urgency t)) desc,
      byKey t_createdAt desc]"

type_synonym goalWithTasks = "goal \<times> task list"
type_synonym projectWithGoals = "project \<times> goalWithTasks list"

text \<open>
  \<open>include: { goals: { where: { deletedAt: null }, include: { tasks: { where:
  { deletedAt: null } } } } }\<close>, with no ordering asked for.
\<close>

definition includeTasks :: "store \<Rightarrow> goal \<Rightarrow> goalWithTasks" where
  "includeTasks s g =
     (g, filter (\<lambda>t. t_goalId t = g_id g \<and> t_deletedAt t = None) (tasks s))"

definition includeGoals :: "store \<Rightarrow> project \<Rightarrow> projectWithGoals" where
  "includeGoals s p =
     (p, map (includeTasks s)
           (filter (\<lambda>g. g_projectId g = p_id p \<and> g_deletedAt g = None) (goals s)))"

definition project_findUnique :: "ident \<Rightarrow> store \<Rightarrow> projectWithGoals option" where
  "project_findUnique pid s =
     map_option (includeGoals s) (find (\<lambda>p. p_id p = pid) (projects s))"

text \<open>The first query of \<open>syncData\<close>: the live projects changed after the watermark.\<close>

definition project_findMany_since :: "instant option \<Rightarrow> store \<Rightarrow> projectWithGoals list" where
  "project_findMany_since lastSynced s =
     map (includeGoals s)
       (filter (\<lambda>p. p_deletedAt p = None \<and>
                    (case lastSynced of None \<Rightarrow> True | Some l \<Rightarrow> l < p_updatedAt p))
          (projects s))"

text \<open>
  The query of \<open>getAllProjects\<close> and of the last read of \<open>syncData\<close>: live projects by
  \<open>createdAt\<close>, their live goals by \<open>createdAt\<close>, their live tasks in the task list
  order.
\<close>

definition project_findMany :: "store \<Rightarrow> projectWithGoals list" where
  "project_findMany s =
     map (\<lambda>p. (p,
            map (\<lambda>g. (g,
                   orderBy taskListOrder
                     (filter (\<lambda>t. t_goalId t = g_id g \<and> t_deletedAt t = None) (tasks s))))
              (orderBy [byKey g_createdAt asc]
                 (filter (\<lambda>g. g_projectId g = p_id p \<and> g_deletedAt g = None) (goals s)))))
       (orderBy [byKey p_createdAt asc] (filter (\<lambda>p. p_deletedAt p = None) (projects s)))"

record taskQuery =
  q_goalId :: "ident option"
  q_urgency :: "urgency option"
  q_todaysFocus :: "bool option"
  q_completed :: "bool option"

definition taskMatches :: "taskQuery \<Rightarrow> task \<Rightarrow> bool" where
  "taskMatches q t =
     (t_deletedAt t = None \<and>
      (case q_goalId q of None \<Rightarrow> True | Some g \<Rightarrow> t_goalId t = g) \<and>
      (case q_urgency q of None \<Rightarrow> True | Some u \<Rightarrow> t_urgency t = u) \<and>
      (case q_todaysFocus q of None \<Rightarrow> True | Some f \<Rightarrow> t_todaysFocus t = f) \<and>
      (case q_completed q of None \<Rightarrow> True | Some c \<Rightarrow> t_completed t = c))"

text \<open>
  \<open>getAllTasks\<close> and \<open>getTodaysTasks\<close> (the joined goal and project of each row are
  left out: they do not take part in the filter or the order).
\<close>

definition getAllTasks :: "taskQuery \<Rightarrow> store \<Rightarrow> task list" where
  "getAllTasks q s = orderBy taskListOrder (filter (taskMatches q) (tasks s))"

definition getTodaysTasks :: "store \<Rightarrow> task list" where
  "getTodaysTasks s =
     orderBy todaysOrder (filter (\<lambda>t. t_deletedAt t = None \<and> t_todaysFocus t) (tasks s))"

section \<open>The sync reconciler (syncData)\<close>

text \<open>
  The request after \<open>SyncSchema.parse\<close>. An id is optional and may be the empty string;
  \<open>completedAt\<close> and \<open>lastSyncedAt\<close> are datetime strings, held here as the instants
  \<open>new Date\<close> makes of them (\<open>None\<close> when null or absent).
\<close>

record clientTask =
  ct_id :: "string option"
  ct_name :: string
  ct_completed :: bool
  ct_urgency :: urgency
  ct_todaysFocus :: bool
  ct_completedAt :: "instant option"

record clientGoal =
  cg_id :: "string option"
  cg_name :: string
  cg_tasks :: "clientTask list"

record clientProject =
  cp_id :: "string option"
  cp_name :: string
  cp_goals :: "clientGoal list"

record syncRequest =
  req_projects :: "clientProject list"
  lastSyncedAt :: "instant option"

record counts =
  n_projects :: nat
  n_goals :: nat
  n_tasks :: nat

text \<open>\<open>syncResults\<close>; its \<open>conflicts\<close> list is never written and is left out.\<close>

record results =
  created :: counts
  updated :: counts

record syncResponse =
  syncResults :: results
  serverState :: "projectWithGoals list"
  syncedAt :: instant

definition noResults :: results where
  "noResults =
     \<lparr>created = \<lparr>n_projects = 0, n_goals = 0, n_tasks = 0\<rparr>,
      updated = \<lparr>n_projects = 0, n_goals = 0, n_tasks = 0\<rparr>\<rparr>"

text \<open>\<open>!x.id\<close> holds for an absent id and for the empty string.\<close>

fun presentId :: "string option \<Rightarrow> ident option" where
  "presentId None = None"
| "presentId (Some i) = (if i = [] then None else Some i)"

definition taskDataOf :: "clientTask \<Rightarrow> taskData" where
  "taskDataOf ct =
     (ct_name ct, ct_completed ct, ct_urgency ct, ct_todaysFocus ct, ct_completedAt ct)"

definition goalDataOf :: "clientGoal \<Rightarrow> string \<times> taskData list" where
  "goalDataOf cg = (cg_name cg, map taskDataOf (cg_tasks cg))"

fun forEach :: "('a \<Rightarrow> 'st \<Rightarrow> (error \<times> store) + 'st) \<Rightarrow> 'a list \<Rightarrow> 'st
    \<Rightarrow> (error \<times> store) + 'st" where
  "forEach f [] st = Inr st"
| "forEach f (x # xs) st =
     (case f x st of Inl e \<Rightarrow> Inl e | Inr st' \<Rightarrow> forEach f xs st')"

definition syncTask :: "ident \<Rightarrow> task list \<Rightarrow> clientTask \<Rightarrow> store \<times> results
    \<Rightarrow> (store \<times> results) outcome" where
  "syncTask goalId serverTasks clientTask st =
     (case st of (s, r) \<Rightarrow>
        (case presentId (ct_id clientTask) of
           None \<Rightarrow>
             (case task_create goalId (taskDataOf clientTask) s of
                Inl e \<Rightarrow> Inl e
              | Inr s' \<Rightarrow>
                  Inr (s', r\<lparr>created := (created r)\<lparr>n_tasks := n_tasks (created r) + 1\<rparr>\<rparr>))
         | Some tid \<Rightarrow>
             (case find (\<lambda>t. t_id t = tid) serverTasks of
                None \<Rightarrow> Inr (s, r)
              | Some serverTask \<Rightarrow>
                  (case task_update tid
                          (\<lambda>t. t\<lparr>t_name := ct_name clientTask,
                                 t_completed := ct_completed clientTask,
                                 t_urgency := ct_urgency clientTask,
                                 t_todaysFocus := ct_todaysFocus clientTask,
                                 t_completedAt := ct_completedAt clientTask\<rparr>) s of
                     Inl e \<Rightarrow> Inl e
                   | Inr s' \<Rightarrow>
                       Inr (s', r\<lparr>updated :=
                                  (updated r)\<lparr>n_tasks := n_tasks (updated r) + 1\<rparr>\<rparr>)))))"

definition syncGoal :: "ident \<Rightarrow> goalWithTasks list \<Rightarrow> clientGoal \<Rightarrow> store \<times> results
    \<Rightarrow> (store \<times> results) outcome" where
  "syncGoal projectId serverGoals clientGoal st =
     (case st of (s, r) \<Rightarrow>
        (case presentId (cg_id clientGoal) of
           None \<Rightarrow>
             (case goal_create projectId (cg_name clientGoal)
                     (map taskDataOf (cg_tasks clientGoal)) s of
                Inl e \<Rightarrow> Inl e
              | Inr s' \<Rightarrow>
                  Inr (s', r\<lparr>created := (created r)
                             \<lparr>n_goals := n_goals (created r) + 1,
                              n_tasks := n_tasks (created r) + length (cg_tasks clientGoal)\<rparr>\<rparr>))
         | Some gid \<Rightarrow>
             (case find (\<lambda>sg. g_id (fst sg) = gid) serverGoals of
                None \<Rightarrow> Inr (s, r)
              | Some serverGoal \<Rightarrow>
                  (case (if g_name (fst serverGoal) \<noteq> cg_name clientGoal
                         then (case goal_update gid (\<lambda>g. g\<lparr>g_name := cg_name clientGoal\<rparr>) s of
                                 Inl e \<Rightarrow> Inl e
                               | Inr s' \<Rightarrow>
                                   Inr (s', r\<lparr>updated := (updated r)
                                              \<lparr>n_goals := n_goals (updated r) + 1\<rparr>\<rparr>))
                         else Inr (s, r)) of
                     Inl e \<Rightarrow> Inl e
                   | Inr st' \<Rightarrow>
                       forEach (syncTask gid (snd serverGoal)) (cg_tasks clientGoal) st'))))"

definition syncProject :: "clientProject \<Rightarrow> store \<times> results \<Rightarrow> (store \<times> results) outcome" where
  "syncProject clientProject st =
     (case st of (s, r) \<Rightarrow>
        (case presentId (cp_id clientProject) of
           None \<Rightarrow>
             (case project_create (cp_name clientProject)
                     (map goalDataOf (cp_goals clientProject)) s of
                Inl e \<Rightarrow> Inl e
              | Inr s' \<Rightarrow>
                  Inr (s', r\<lparr>created := (created r)
                             \<lparr>n_projects := n_projects (created r) + 1,
                              n_goals := n_goals (created r) + length (cp_goals clientProject),
                              n_tasks := n_tasks (created r) +
                                foldl (\<lambda>sum g. sum + length (cg_tasks g)) 0
                                  (cp_goals clientProject)\<rparr>\<rparr>))
         | Some pid \<Rightarrow>
             (case project_findUnique pid s of
                None \<Rightarrow> Inr (s, r)
              | Some serverProject \<Rightarrow>
                  (case (if p_name (fst serverProject) \<noteq> cp_name clientProject
                         then (case project_update pid
                                      (\<lambda>p. p\<lparr>p_name := cp_name clientProject\<rparr>) s of
                                 Inl e \<Rightarrow> Inl e
                               | Inr s' \<Rightarrow>
                                   Inr (s', r\<lparr>updated := (updated r)
                                              \<lparr>n_projects := n_projects (updated r) + 1\<rparr>\<rparr>))
                         else Inr (s, r)) of
                     Inl e \<Rightarrow> Inl e
                   | Inr st' \<Rightarrow>
                       forEach (syncGoal pid (snd serverProject)) (cp_goals clientProject)
                         st'))))"

definition syncData :: "syncRequest \<Rightarrow> store \<Rightarrow> (syncResponse \<times> store) outcome" where
  "syncData req s =
     (let serverProjects = project_findMany_since (lastSyncedAt req) s in
      case forEach syncProject (req_projects req) (s, noResults) of
        Inl e \<Rightarrow> Inl e
      | Inr (s', r) \<Rightarrow>
          (let updatedServerState = project_findMany s' in
           case now s' of (t, s'') \<Rightarrow>
             Inr (\<lparr>syncResults = r, serverState = updatedServerState, syncedAt = t\<rparr>, s'')))"

section \<open>The CRUD handlers the claims name\<close>

text \<open>\<open>createGoal\<close>, after \<open>CreateGoalSchema.parse\<close>.\<close>

definition createGoal :: "ident \<Rightarrow> string \<Rightarrow> store \<Rightarrow> store outcome" where
  "createGoal projectId name s =
     (case find (\<lambda>p. p_id p = projectId \<and> p_deletedAt p = None) (projects s) of
        None \<Rightarrow> Inl (NotFoundError ''Project'' projectId, s)
      | Some project \<Rightarrow> goal_create projectId name [] s)"

text \<open>
  \<open>createTask\<close>, after \<open>CreateTaskSchema.parse\<close>: \<open>urgency\<close>, \<open>todaysFocus\<close> and
  \<open>completed\<close> are optional (\<open>??\<close> supplies the default); \<open>completedAt\<close> is not part
  of the data.
\<close>

definition createTask :: "ident \<Rightarrow> string \<Rightarrow> urgency option \<Rightarrow> bool option \<Rightarrow> bool option
    \<Rightarrow> store \<Rightarrow> store outcome" where
  "createTask goalId name urgency todaysFocus completed s =
     (case find (\<lambda>g. g_id g = goalId \<and> g_deletedAt g = None) (goals s) of
        None \<Rightarrow> Inl (NotFoundError ''Goal'' goalId, s)
      | Some goal \<Rightarrow>
          task_create goalId
            (name,
             (case completed of None \<Rightarrow> False | Some c \<Rightarrow> c),
             (case urgency of None \<Rightarrow> MIDDEN | Some u \<Rightarrow> u),
             (case todaysFocus of None \<Rightarrow> False | Some f \<Rightarrow> f),
             None) s)"

text \<open>
  \<open>updateTask\<close>, after \<open>UpdateTaskSchema.parse\<close>: every field is optional, and
  \<open>urgency\<close> may also be null (\<open>Some None\<close>), which the required column refuses.
\<close>

record taskPatch =
  u_name :: "string option"
  u_urgency :: "urgency option option"
  u_todaysFocus :: "bool option"
  u_completed :: "bool option"
  u_goalId :: "ident option"

definition applyPatch :: "taskPatch \<Rightarrow> task \<Rightarrow> task" where
  "applyPatch d t =
     t\<lparr>t_name := (case u_name d of None \<Rightarrow> t_name t | Some n \<Rightarrow> n),
       t_urgency := (case u_urgency d of Some (Some u) \<Rightarrow> u | _ \<Rightarrow> t_urgency t),
       t_todaysFocus := (case u_todaysFocus d of None \<Rightarrow> t_todaysFocus t | Some f \<Rightarrow> f),
       t_completed := (case u_completed d of None \<Rightarrow> t_completed t | Some c \<Rightarrow> c),
       t_goalId := (case u_goalId d of None \<Rightarrow> t_goalId t | Some g \<Rightarrow> g)\<rparr>"

text \<open>
  The completion timestamp of \<open>updateData\<close>: \<open>Some v\<close> when the handler sets the field to
  \<open>v\<close>, \<open>None\<close> when it leaves the field out.
\<close>

definition completionStamp :: "taskPatch \<Rightarrow> task \<Rightarrow> store \<Rightarrow> instant option option \<times> store" where
  "completionStamp d existingTask s =
     (case u_completed d of
        None \<Rightarrow> (None, s)
      | Some c \<Rightarrow>
          if c \<and> \<not> t_completed existingTask
          then (case now s of (t, s') \<Rightarrow> (Some (Some t), s'))
          else if \<not> c \<and> t_completed existingTask then (Some None, s)
          else (None, s))"

definition updateTask :: "ident \<Rightarrow> taskPatch \<Rightarrow> store \<Rightarrow> store outcome" where
  "updateTask tid d s =
     (case find (\<lambda>t. t_id t = tid \<and> t_deletedAt t = None) (tasks s) of
        None \<Rightarrow> Inl (NotFoundError ''Task'' tid, s)
      | Some existingTask \<Rightarrow>
          (case (case u_goalId d of
                   None \<Rightarrow> None
                 | Some gid \<Rightarrow>
                     (case find (\<lambda>g. g_id g = gid \<and> g_deletedAt g = None) (goals s) of
                        None \<Rightarrow> Some (NotFoundError ''Goal'' gid)
                      | Some goal \<Rightarrow> None)) of
             Some e \<Rightarrow> Inl (e, s)
           | None \<Rightarrow>
               (case completionStamp d existingTask s of (stamp, s1) \<Rightarrow>
                  if u_urgency d = Some None then Inl (InvalidArgument, s1)
                  else task_update tid
                         (\<lambda>t. (case stamp of
                                 None \<Rightarrow> applyPatch d t
                               | Some v \<Rightarrow> (applyPatch d t)\<lparr>t_completedAt := v\<rparr>)) s1)))"

text \<open>
  \<open>deleteProject\<close> and \<open>deleteGoal\<close>: the existence check, then the cascade inside
  \<open>prisma.$transaction\<close>. Each \<open>new Date()\<close> is a reading of the clock of its own.
\<close>

definition deleteProject :: "ident \<Rightarrow> store \<Rightarrow> store outcome" where
  "deleteProject pid s =
     (case find (\<lambda>p. p_id p = pid \<and> p_deletedAt p = None) (projects s) of
        None \<Rightarrow> Inl (NotFoundError ''Project'' pid, s)
      | Some existingProject \<Rightarrow>
          transaction (\<lambda>tx.
            case now tx of (d1, tx1) \<Rightarrow>
            (case task_updateMany
                    (\<lambda>t. (\<exists>g \<in> set (goals tx1). g_id g = t_goalId t \<and> g_projectId g = pid)
                          \<and> t_deletedAt t = None)
                    (\<lambda>t. t\<lparr>t_deletedAt := Some d1\<rparr>) tx1 of
               Inl e \<Rightarrow> Inl e
             | Inr tx2 \<Rightarrow>
                 (case now tx2 of (d2, tx3) \<Rightarrow>
                  (case goal_updateMany (\<lambda>g. g_projectId g = pid \<and> g_deletedAt g = None)
                          (\<lambda>g. g\<lparr>g_deletedAt := Some d2\<rparr>) tx3 of
                     Inl e \<Rightarrow> Inl e
                   | Inr tx4 \<Rightarrow>
                       (case now tx4 of (d3, tx5) \<Rightarrow>
                          project_update pid (\<lambda>p. p\<lparr>p_deletedAt := Some d3\<rparr>) tx5))))) s)"

definition deleteGoal :: "ident \<Rightarrow> store \<Rightarrow> store outcome" where
  "deleteGoal gid s =
     (case find (\<lambda>g. g_id g = gid \<and> g_deletedAt g = None) (goals s) of
        None \<Rightarrow> Inl (NotFoundError ''Goal'' gid, s)
      | Some existingGoal \<Rightarrow>
          transaction (\<lambda>tx.
            case now tx of (d1, tx1) \<Rightarrow>
            (case task_updateMany (\<lambda>t. t_goalId t = gid \<and> t_deletedAt t = None)
                    (\<lambda>t. t\<lparr>t_deletedAt := Some d1\<rparr>) tx1 of
               Inl e \<Rightarrow> Inl e
             | Inr tx2 \<Rightarrow>
                 (case now tx2 of (d2, tx3) \<Rightarrow>
                    goal_update gid (\<lambda>g. g\<lparr>g_deletedAt := Some d2\<rparr>) tx3))) s)"

section \<open>Orders for the proofs about \<open>orderBy\<close>\<close>

text \<open>
  A strict weak order: asymmetric, and incomparability is transitive. Every column with a
  direction is one, and so is every list of them.
\<close>

definition weakOrder :: "('a \<Rightarrow> 'a \<Rightarrow> bool) \<Rightarrow> bool" where
  "weakOrder R = ((\<forall>a b. R a b \<longrightarrow> \<not> R b a) \<and> (\<forall>a b c. \<not> R a b \<and> \<not> R b c \<longrightarrow> \<not> R a c))"

text \<open>
  The level an urgency token stands for: \<open>LAAG\<close> is low, \<open>MIDDEN\<close> medium and \<open>HOOG\<close>
  high (PROJECT_SUMMARY.md; the specification's enum LOW, MEDIUM, HIGH). This is the
  order the specification's ``urgency descending'' names; the code sorts the text column
  (\<open>urgencyText\<close> in \<open>todaysOrder\<close>).
\<close>

fun urgencyLevel :: "urgency \<Rightarrow> nat" where
  "urgencyLevel LAAG = 0"
| "urgencyLevel MIDDEN = 1"
| "urgencyLevel HOOG = 2"

section \<open>Relations between the rows before and after a reconciliation pass\<close>

text \<open>
  The proofs about two passes with the same snapshot relate each row of a table before a
  loop of the reconciler to the row at the same position after it. The frame of a row is
  what the reconciler never writes: the id, the parent, \<open>createdAt\<close> and \<open>deletedAt\<close>. The
  content of a task is what the task update of the reconciler overwrites.
\<close>

definition taskContent :: "task \<Rightarrow> taskData" where
  "taskContent t = (t_name t, t_completed t, t_urgency t, t_todaysFocus t, t_completedAt t)"

definition sameTaskFrame :: "task \<Rightarrow> task \<Rightarrow> bool" where
  "sameTaskFrame t t' =
     (t_id t' = t_id t \<and> t_goalId t' = t_goalId t \<and> t_deletedAt t' = t_deletedAt t \<and>
      t_createdAt t' = t_createdAt t)"

definition sameGoalFrame :: "goal \<Rightarrow> goal \<Rightarrow> bool" where
  "sameGoalFrame g g' =
     (g_id g' = g_id g \<and> g_projectId g' = g_projectId g \<and> g_deletedAt g' = g_deletedAt g \<and>
      g_createdAt g' = g_createdAt g)"

definition sameProjectFrame :: "project \<Rightarrow> project \<Rightarrow> bool" where
  "sameProjectFrame p p' =
     (p_id p' = p_id p \<and> p_deletedAt p' = p_deletedAt p \<and> p_createdAt p' = p_createdAt p)"

text \<open>
  A client entity hits a row when the reconciler finds the row for it: a client project
  by its id alone (\<open>findUnique\<close>), a client goal among the live goals of the project, a
  client task among the live tasks of the goal.
\<close>

definition taskHit :: "ident \<Rightarrow> clientTask \<Rightarrow> task \<Rightarrow> bool" where
  "taskHit gid ct t =
     (t_deletedAt t = None \<and> t_goalId t = gid \<and> presentId (ct_id ct) = Some (t_id t))"

definition goalHit :: "ident \<Rightarrow> clientGoal \<Rightarrow> goal \<Rightarrow> bool" where
  "goalHit pid cg g =
     (g_deletedAt g = None \<and> g_projectId g = pid \<and> presentId (cg_id cg) = Some (g_id g))"

definition projectHit :: "clientProject \<Rightarrow> project \<Rightarrow> bool" where
  "projectHit cp p = (presentId (cp_id cp) = Some (p_id p))"

definition overwriteTask :: "clientTask \<Rightarrow> task \<Rightarrow> task" where
  "overwriteTask ct t =
     t\<lparr>t_name := ct_name ct, t_completed := ct_completed ct, t_urgency := ct_urgency ct,
       t_todaysFocus := ct_todaysFocus ct, t_completedAt := ct_completedAt ct\<rparr>"

text \<open>The last element of a list with a property.\<close>

definition lastHit :: "('a \<Rightarrow> bool) \<Rightarrow> 'a list \<Rightarrow> 'a option" where
  "lastHit P xs = find P (rev xs)"

text \<open>
  A task row at the start of the task loop of the goal \<open>gid\<close> and the row after the client
  tasks \<open>done\<close>: the frame is the same, a row that some of them hit has the content of the
  last one that hits it, and a row that none of them hits is unchanged. \<open>hitCount\<close> is
  the number of client tasks that hit a row.
\<close>

definition taskAfter :: "ident \<Rightarrow> clientTask list \<Rightarrow> task \<Rightarrow> task \<Rightarrow> bool" where
  "taskAfter gid done t t' =
     (sameTaskFrame t t' \<and>
      (case lastHit (\<lambda>ct. taskHit gid ct t) done of
         None \<Rightarrow> t' = t
       | Some ct \<Rightarrow> taskContent t' = taskDataOf ct))"

definition hitCount :: "ident \<Rightarrow> task list \<Rightarrow> clientTask list \<Rightarrow> nat" where
  "hitCount gid ts cts = length (filter (\<lambda>ct. \<exists>t \<in> set ts. taskHit gid ct t) cts)"

text \<open>
  The same for the goal loop of the project \<open>pid\<close>. A goal row that a client goal hits has
  its name, and is unchanged when it had that name already. A client goal covers a task
  row when it hits the goal of the row; the row is then as the task loop of that client
  goal leaves it, and a row that no client goal covers is unchanged.
\<close>

definition goalAfter :: "ident \<Rightarrow> clientGoal list \<Rightarrow> goal \<Rightarrow> goal \<Rightarrow> bool" where
  "goalAfter pid done g g' =
     (sameGoalFrame g g' \<and>
      (\<forall>cg \<in> set done. goalHit pid cg g \<longrightarrow> g_name g' = cg_name cg) \<and>
      ((\<forall>cg \<in> set done. goalHit pid cg g \<longrightarrow> g_name g = cg_name cg) \<longrightarrow> g' = g))"

definition goalCovers :: "ident \<Rightarrow> goal list \<Rightarrow> clientGoal \<Rightarrow> task \<Rightarrow> bool" where
  "goalCovers pid GS cg t = (\<exists>g \<in> set GS. goalHit pid cg g \<and> g_id g = t_goalId t)"

definition taskAfterGoals :: "ident \<Rightarrow> goal list \<Rightarrow> clientGoal list \<Rightarrow> task \<Rightarrow> task \<Rightarrow> bool" where
  "taskAfterGoals pid GS done t t' =
     (sameTaskFrame t t' \<and>
      (\<forall>cg \<in> set done. goalCovers pid GS cg t \<longrightarrow>
          taskAfter (t_goalId t) (cg_tasks cg) t t') \<and>
      ((\<forall>cg \<in> set done. \<not> goalCovers pid GS cg t) \<longrightarrow> t' = t))"

definition goalsHitCount :: "ident \<Rightarrow> goal list \<Rightarrow> task list \<Rightarrow> clientGoal list \<Rightarrow> nat" where
  "goalsHitCount pid GS ts cgs =
     sum_list (map (\<lambda>cg. case presentId (cg_id cg) of
                            None \<Rightarrow> 0
                          | Some gid \<Rightarrow> if (\<exists>g \<in> set GS. goalHit pid cg g)
                                         then hitCount gid ts (cg_tasks cg) else 0) cgs)"

text \<open>The same for the loop over the client projects, for the three tables.\<close>

definition projAfter :: "clientProject list \<Rightarrow> project \<Rightarrow> project \<Rightarrow> bool" where
  "projAfter done p p' =
     (sameProjectFrame p p' \<and>
      (\<forall>cp \<in> set done. projectHit cp p \<longrightarrow> p_name p' = cp_name cp) \<and>
      ((\<forall>cp \<in> set done. projectHit cp p \<longrightarrow> p_name p = cp_name cp) \<longrightarrow> p' = p))"

definition projectGoalHit :: "project list \<Rightarrow> clientProject \<Rightarrow> clientGoal \<Rightarrow> goal \<Rightarrow> bool" where
  "projectGoalHit PS cp cg g = (\<exists>p \<in> set PS. projectHit cp p \<and> goalHit (p_id p) cg g)"

definition projectCovers :: "project list \<Rightarrow> goal list \<Rightarrow> clientProject \<Rightarrow> clientGoal
    \<Rightarrow> task \<Rightarrow> bool" where
  "projectCovers PS GS cp cg t =
     (\<exists>p \<in> set PS. projectHit cp p \<and> goalCovers (p_id p) GS cg t)"

definition goalAfterAll :: "project list \<Rightarrow> clientProject list \<Rightarrow> goal \<Rightarrow> goal \<Rightarrow> bool" where
  "goalAfterAll PS done g g' =
     (sameGoalFrame g g' \<and>
      (\<forall>cp \<in> set done. \<forall>cg \<in> set (cp_goals cp).
          projectGoalHit PS cp cg g \<longrightarrow> g_name g' = cg_name cg) \<and>
      ((\<forall>cp \<in> set done. \<forall>cg \<in> set (cp_goals cp).
          projectGoalHit PS cp cg g \<longrightarrow> g_name g = cg_name cg) \<longrightarrow> g' = g))"

definition taskAfterAll :: "project list \<Rightarrow> goal list \<Rightarrow> clientProject list \<Rightarrow> task \<Rightarrow> task
    \<Rightarrow> bool" where
  "taskAfterAll PS GS done t t' =
     (sameTaskFrame t t' \<and>
      (\<forall>cp \<in> set done. \<forall>cg \<in> set (cp_goals cp).
          projectCovers PS GS cp cg t \<longrightarrow> taskAfter (t_goalId t) (cg_tasks cg) t t') \<and>
      ((\<forall>cp \<in> set done. \<forall>cg \<in> set (cp_goals cp). \<not> projectCovers PS GS cp cg t)
          \<longrightarrow> t' = t))"

definition projectsHitCount :: "project list \<Rightarrow> goal list \<Rightarrow> task list \<Rightarrow> clientProject list
    \<Rightarrow> nat" where
  "projectsHitCount PS GS ts cps =
     sum_list (map (\<lambda>cp. case presentId (cp_id cp) of
                            None \<Rightarrow> 0
                          | Some pid \<Rightarrow> if (\<exists>p \<in> set PS. p_id p = pid)
                                         then goalsHitCount pid GS ts (cp_goals cp) else 0) cps)"

text \<open>
  A snapshot whose entities all carry an id (\<open>!x.id\<close> is false at the three levels), and a
  snapshot that names no project and no goal twice: no two client projects with one id,
  no two goals of one client project with one id.
\<close>

definition idsPresent :: "clientProject list \<Rightarrow> bool" where
  "idsPresent cps =
     ((\<forall>cp \<in> set cps. presentId (cp_id cp) \<noteq> None) \<and>
      (\<forall>cp \<in> set cps. \<forall>cg \<in> set (cp_goals cp). presentId (cg_id cg) \<noteq> None) \<and>
      (\<forall>cp \<in> set cps. \<forall>cg \<in> set (cp_goals cp). \<forall>ct \<in> set (cg_tasks cg).
          presentId (ct_id ct) \<noteq> None))"

definition idsDistinct :: "clientProject list \<Rightarrow> bool" where
  "idsDistinct cps =
     (distinct (map cp_id cps) \<and> (\<forall>cp \<in> set cps. distinct (map cg_id (cp_goals cp))))"

text \<open>
  The \<open>serverState\<close> of a response without the \<open>updatedAt\<close> of the tasks, which every task
  update of the reconciler sets to the reading of the clock.
\<close>

definition withoutStamp :: "task \<Rightarrow> task" where
  "withoutStamp t = t\<lparr>t_updatedAt := 0\<rparr>"

definition withoutTaskStamps :: "projectWithGoals list \<Rightarrow> projectWithGoals list" where
  "withoutTaskStamps ps =
     map (\<lambda>pg. (fst pg, map (\<lambda>gt. (fst gt, map withoutStamp (snd gt))) (snd pg))) ps"

section \<open>Example stores and requests\<close>

definition emptyStore :: store where
  "emptyStore =
     \<lparr>projects = [], goals = [], tasks = [], clock = 1000, ticks = [1, 1, 1, 1, 1, 1, 1, 1],
      nextId = 0, writesUntilFailure = None\<rparr>"

definition workProject :: project where
  "workProject =
     \<lparr>p_id = ''p1'', p_name = ''Work'', p_createdAt = 10, p_updatedAt = 10,
      p_deletedAt = None\<rparr>"

definition oldProject :: project where
  "oldProject =
     \<lparr>p_id = ''p2'', p_name = ''Old'', p_createdAt = 20, p_updatedAt = 30,
      p_deletedAt = Some 30\<rparr>"

definition shipGoal :: goal where
  "shipGoal =
     \<lparr>g_id = ''g1'', g_projectId = ''p1'', g_name = ''Ship'', g_createdAt = 11,
      g_updatedAt = 11, g_deletedAt = None\<rparr>"

definition writeTask :: task where
  "writeTask =
     \<lparr>t_id = ''t1'', t_goalId = ''g1'', t_name = ''Write'', t_completed = False,
      t_urgency = MIDDEN, t_todaysFocus = False, t_createdAt = 12, t_updatedAt = 12,
      t_completedAt = None, t_deletedAt = None\<rparr>"

text \<open>
  One live project with one goal and one task, and one soft-deleted project; the clock
  advances by a millisecond at each reading.
\<close>

definition demoStore :: store where
  "demoStore =
     \<lparr>projects = [workProject, oldProject], goals = [shipGoal], tasks = [writeTask],
      clock = 1000, ticks = [1, 1, 1, 1, 1, 1, 1, 1], nextId = 0, writesUntilFailure = None\<rparr>"

definition newTask :: clientTask where
  "newTask =
     \<lparr>ct_id = None, ct_name = ''T1'', ct_completed = False, ct_urgency = HOOG,
      ct_todaysFocus = True, ct_completedAt = None\<rparr>"

definition newGoal :: clientGoal where
  "newGoal = \<lparr>cg_id = None, cg_name = ''G1'', cg_tasks = [newTask]\<rparr>"

definition newProject :: "string \<Rightarrow> clientProject" where
  "newProject n = \<lparr>cp_id = None, cp_name = n, cp_goals = [newGoal]\<rparr>"

text \<open>The client's copy of the task of \<open>demoStore\<close>, ticked off without a timestamp.\<close>

definition doneTask :: clientTask where
  "doneTask =
     \<lparr>ct_id = Some ''t1'', ct_name = ''Write'', ct_completed = True, ct_urgency = MIDDEN,
      ct_todaysFocus = False, ct_completedAt = None\<rparr>"

text \<open>The client's copy of the hierarchy of \<open>demoStore\<close>, with the content of the server.\<close>

definition sameTask :: clientTask where
  "sameTask =
     \<lparr>ct_id = Some ''t1'', ct_name = ''Write'', ct_completed = False, ct_urgency = MIDDEN,
      ct_todaysFocus = False, ct_completedAt = None\<rparr>"

definition knownProject :: "string \<Rightarrow> clientTask list \<Rightarrow> clientProject" where
  "knownProject n cts =
     \<lparr>cp_id = Some ''p1'', cp_name = n,
      cp_goals = [\<lparr>cg_id = Some ''g1'', cg_name = ''Ship'', cg_tasks = cts\<rparr>]\<rparr>"

text \<open>A goal and a task whose ids the server does not know.\<close>

definition ghostTask :: clientTask where
  "ghostTask =
     \<lparr>ct_id = Some ''t9'', ct_name = ''Ghost'', ct_completed = True, ct_urgency = LAAG,
      ct_todaysFocus = True, ct_completedAt = Some 5\<rparr>"

definition ghostGoal :: clientGoal where
  "ghostGoal = \<lparr>cg_id = Some ''g9'', cg_name = ''Ghost'', cg_tasks = [newTask, ghostTask]\<rparr>"

definition revivedProject :: clientProject where
  "revivedProject = \<lparr>cp_id = Some ''p2'', cp_name = ''Revived'', cp_goals = [newGoal]\<rparr>"

text \<open>A new project that adopts a goal and a task carrying ids of their own.\<close>

definition adoptedProject :: clientProject where
  "adoptedProject = \<lparr>cp_id = None, cp_name = ''Moved'', cp_goals = [ghostGoal]\<rparr>"

text \<open>The body of \<open>PUT /api/tasks/t1\<close> that ticks the task off.\<close>

definition completePatch :: taskPatch where
  "completePatch =
     \<lparr>u_name = None, u_urgency = None, u_todaysFocus = None, u_completed = Some True,
      u_goalId = None\<rparr>"

text \<open>Four tasks of one goal, three of them marked for today.\<close>

definition focusStore :: store where
  "focusStore =
     demoStore\<lparr>tasks :=
       [writeTask,
        writeTask\<lparr>t_id := ''t2'', t_todaysFocus := True, t_completed := True,
          t_completedAt := Some 40, t_createdAt := 13\<rparr>,
        writeTask\<lparr>t_id := ''t3'', t_todaysFocus := True, t_urgency := LAAG, t_createdAt := 16\<rparr>,
        writeTask\<lparr>t_id := ''t4'', t_todaysFocus := True, t_createdAt := 15\<rparr>]\<rparr>"

definition anyTask :: taskQuery where
  "anyTask = \<lparr>q_goalId = None, q_urgency = None, q_todaysFocus = None, q_completed = None\<rparr>"

text \<open>Three open tasks marked for today, one of each urgency.\<close>

definition urgentStore :: store where
  "urgentStore =
     demoStore\<lparr>tasks :=
       [writeTask\<lparr>t_id := ''t2'', t_todaysFocus := True, t_urgency := HOOG, t_createdAt := 13\<rparr>,
        writeTask\<lparr>t_id := ''t3'', t_todaysFocus := True, t_urgency := LAAG, t_createdAt := 14\<rparr>,
        writeTask\<lparr>t_id := ''t4'', t_todaysFocus := True, t_urgency := MIDDEN,
          t_createdAt := 15\<rparr>]\<rparr>"

text \<open>
  Two snapshots for \<open>demoStore\<close>, every entity with its id: one with the content of the
  server, one that renames the project and ticks the task off.
\<close>

definition sameRequest :: syncRequest where
  "sameRequest = \<lparr>req_projects = [knownProject ''Work'' [sameTask]], lastSyncedAt = None\<rparr>"

definition renamedRequest :: syncRequest where
  "renamedRequest = \<lparr>req_projects = [knownProject ''Renamed'' [doneTask]], lastSyncedAt = None\<rparr>"

text \<open>Two snapshots that name an entity twice: the goal, and the project.\<close>

definition twinGoalsRequest :: syncRequest where
  "twinGoalsRequest =
     \<lparr>req_projects =
        [\<lparr>cp_id = Some ''p1'', cp_name = ''Work'',
          cp_goals = [\<lparr>cg_id = Some ''g1'', cg_name = ''Ship'', cg_tasks = []\<rparr>,
                      \<lparr>cg_id = Some ''g1'', cg_name = ''Shipped'', cg_tasks = []\<rparr>]\<rparr>],
      lastSyncedAt = None\<rparr>"

definition twinProjectsRequest :: syncRequest where
  "twinProjectsRequest =
     \<lparr>req_projects =
        [\<lparr>cp_id = Some ''p1'', cp_name = ''Work'', cp_goals = []\<rparr>,
         \<lparr>cp_id = Some ''p1'', cp_name = ''Office'', cp_goals = []\<rparr>],
      lastSyncedAt = None\<rparr>"

section \<open>Basic facts about the environment and the statements\<close>

lemma now_frame:
  "now s = (t, s') \<Longrightarrow>
     projects s' = projects s \<and> goals s' = goals s \<and> tasks s' = tasks s \<and>
     nextId s' = nextId s \<and> writesUntilFailure s' = writesUntilFailure s \<and>
     clock s' = t \<and> clock s \<le> t"
  by (auto simp: now_def split: list.splits)

lemma now_snd [simp]:
  "projects (snd (now s)) = projects s"
  "goals (snd (now s)) = goals s"
  "tasks (snd (now s)) = tasks s"
  "nextId (snd (now s)) = nextId s"
  "writesUntilFailure (snd (now s)) = writesUntilFailure s"
  by (simp_all add: now_def split: list.splits)

lemma statement_frame:
  "statement s = Inr s' \<Longrightarrow>
     projects s' = projects s \<and> goals s' = goals s \<and> tasks s' = tasks s \<and>
     nextId s' = nextId s \<and> clock s' = clock s \<and> ticks s' = ticks s"
  by (auto simp: statement_def split: option.splits nat.splits)

lemma statement_ok: "writesUntilFailure s = None \<Longrightarrow> statement s = Inr s"
  by (simp add: statement_def)

lemma find_map_pres:
  "(\<And>x. P (f x) = P x) \<Longrightarrow> find P (map f xs) = map_option f (find P xs)"
  by (induction xs) auto

lemma filter_map_pres:
  "(\<And>x. P (f x) = P x) \<Longrightarrow> filter P (map f xs) = map f (filter P xs)"
  by (induction xs) auto

lemma project_update_ok:
  "writesUntilFailure s = None \<Longrightarrow> find (\<lambda>p. p_id p = pid) (projects s) = Some q \<Longrightarrow>
   project_update pid data s =
     Inr ((snd (now s))\<lparr>projects :=
        map (\<lambda>p. if p_id p = pid then (data p)\<lparr>p_updatedAt := fst (now s)\<rparr> else p)
          (projects s)\<rparr>)"
  by (simp add: project_update_def statement_ok split_beta)

lemma goal_update_ok:
  "writesUntilFailure s = None \<Longrightarrow> find (\<lambda>g. g_id g = gid) (goals s) = Some q \<Longrightarrow>
   goal_update gid data s =
     Inr ((snd (now s))\<lparr>goals :=
        map (\<lambda>g. if g_id g = gid then (data g)\<lparr>g_updatedAt := fst (now s)\<rparr> else g)
          (goals s)\<rparr>)"
  by (simp add: goal_update_def statement_ok split_beta)

lemma task_update_ok:
  "writesUntilFailure s = None \<Longrightarrow> find (\<lambda>t. t_id t = tid) (tasks s) = Some q \<Longrightarrow>
   task_update tid data s =
     Inr ((snd (now s))\<lparr>tasks :=
        map (\<lambda>r. if t_id r = tid then (data r)\<lparr>t_updatedAt := fst (now s)\<rparr> else r)
          (tasks s)\<rparr>)"
  by (simp add: task_update_def statement_ok split_beta)

lemma goal_create_ok:
  "writesUntilFailure s = None \<Longrightarrow> find (\<lambda>p. p_id p = pid) (projects s) = Some q \<Longrightarrow>
   goal_create pid n ds s =
     Inr ((snd (now s))\<lparr>goals := goals s @ [mkGoal (cuid (nextId s)) pid (fst (now s)) n],
            tasks := tasks s @ mkTasks (Suc (nextId s)) (cuid (nextId s)) (fst (now s)) ds,
            nextId := Suc (nextId s) + length ds\<rparr>)"
  by (simp add: goal_create_def statement_ok split_beta)

lemma task_create_ok:
  "writesUntilFailure s = None \<Longrightarrow> find (\<lambda>g. g_id g = gid) (goals s) = Some q \<Longrightarrow>
   task_create gid d s =
     Inr ((snd (now s))\<lparr>tasks := tasks s @ [mkTask (cuid (nextId s)) gid (fst (now s)) d],
            nextId := Suc (nextId s)\<rparr>)"
  by (simp add: task_create_def statement_ok split_beta)

lemma project_create_ok:
  "writesUntilFailure s = None \<Longrightarrow>
   project_create n gds s =
     Inr ((snd (now s))\<lparr>projects := projects s @ [mkProject (cuid (nextId s)) (fst (now s)) n],
            goals := goals s @ fst (mkGoals (Suc (nextId s)) (cuid (nextId s)) (fst (now s)) gds),
            tasks := tasks s @ snd (mkGoals (Suc (nextId s)) (cuid (nextId s)) (fst (now s)) gds),
            nextId := Suc (nextId s) + subtreeSize gds\<rparr>)"
  by (simp add: project_create_def statement_ok split_beta)

lemma mkTasks_goalId: "map t_goalId (mkTasks k gid t ds) = replicate (length ds) gid"
  by (induction ds arbitrary: k) (auto simp: mkTask_def)

lemma mkTasks_data:
  "map (\<lambda>r. (t_name r, t_completed r, t_urgency r, t_todaysFocus r, t_completedAt r))
     (mkTasks k gid t ds) = ds"
  by (induction ds arbitrary: k) (auto simp: mkTask_def)

lemma mkTasks_ids: "map t_id (mkTasks k gid t ds) = map cuid [k ..< k + length ds]"
  by (induction ds arbitrary: k) (auto simp: mkTask_def upt_conv_Cons simp del: upt_Suc)

lemma mkTasks_stamps:
  "r \<in> set (mkTasks k gid t ds) \<Longrightarrow>
     t_deletedAt r = None \<and> t_createdAt r = t \<and> t_updatedAt r = t \<and> t_goalId r = gid"
  by (induction ds arbitrary: k) (auto simp: mkTask_def)

lemma length_mkTasks [simp]: "length (mkTasks k gid t ds) = length ds"
  by (induction ds arbitrary: k) auto

lemma set_insertBy: "set (insertBy cs x xs) = insert x (set xs)"
  by (induction xs) auto

lemma set_orderBy: "set (orderBy cs xs) = set xs"
  by (induction xs) (auto simp: orderBy_def set_insertBy)

lemma length_insertBy: "length (insertBy cs x xs) = Suc (length xs)"
  by (induction xs) auto

lemma length_orderBy: "length (orderBy cs xs) = length xs"
  by (induction xs) (auto simp: orderBy_def length_insertBy)

lemma now_still: "ticks s = [] \<Longrightarrow> now s = (clock s, s)"
  by (simp add: now_def)

lemma now_ticks: "now s = (t, s') \<Longrightarrow> ticks s = [] \<Longrightarrow> t = clock s \<and> ticks s' = []"
  by (auto simp: now_def)

lemma task_updateMany_Inr:
  assumes "task_updateMany wh data s = Inr s'"
  shows "\<exists>u. clock s \<le> u \<and> clock s' = u \<and> (ticks s = [] \<longrightarrow> u = clock s \<and> ticks s' = []) \<and>
     tasks s' = map (\<lambda>r. if wh r then (data r)\<lparr>t_updatedAt := u\<rparr> else r) (tasks s) \<and>
     projects s' = projects s \<and> goals s' = goals s"
proof -
  from assms obtain s1 where s1: "statement s = Inr s1"
    by (auto simp: task_updateMany_def split: sum.splits)
  obtain u s2 where n: "now s1 = (u, s2)" by (cases "now s1")
  from assms s1 n have s': "s' = s2\<lparr>tasks := map (\<lambda>r. if wh r then (data r)\<lparr>t_updatedAt := u\<rparr> else r) (tasks s2)\<rparr>"
    by (simp add: task_updateMany_def)
  show ?thesis
    using statement_frame[OF s1] now_frame[OF n] now_ticks[OF n] s' by (intro exI[of _ u]) simp
qed

lemma goal_updateMany_Inr:
  assumes "goal_updateMany wh data s = Inr s'"
  shows "\<exists>u. clock s \<le> u \<and> clock s' = u \<and> (ticks s = [] \<longrightarrow> u = clock s \<and> ticks s' = []) \<and>
     goals s' = map (\<lambda>r. if wh r then (data r)\<lparr>g_updatedAt := u\<rparr> else r) (goals s) \<and>
     projects s' = projects s \<and> tasks s' = tasks s"
proof -
  from assms obtain s1 where s1: "statement s = Inr s1"
    by (auto simp: goal_updateMany_def split: sum.splits)
  obtain u s2 where n: "now s1 = (u, s2)" by (cases "now s1")
  from assms s1 n have s': "s' = s2\<lparr>goals := map (\<lambda>r. if wh r then (data r)\<lparr>g_updatedAt := u\<rparr> else r) (goals s2)\<rparr>"
    by (simp add: goal_updateMany_def)
  show ?thesis
    using statement_frame[OF s1] now_frame[OF n] now_ticks[OF n] s' by (intro exI[of _ u]) simp
qed

lemma project_update_Inr:
  assumes "project_update pid data s = Inr s'"
  shows "\<exists>u. clock s \<le> u \<and> clock s' = u \<and> (ticks s = [] \<longrightarrow> u = clock s \<and> ticks s' = []) \<and>
     projects s' = map (\<lambda>r. if p_id r = pid then (data r)\<lparr>p_updatedAt := u\<rparr> else r) (projects s) \<and>
     goals s' = goals s \<and> tasks s' = tasks s \<and> find (\<lambda>p. p_id p = pid) (projects s) \<noteq> None"
proof -
  from assms obtain s1 where s1: "statement s = Inr s1"
    by (auto simp: project_update_def split: sum.splits)
  obtain u s2 where n: "now s1 = (u, s2)" by (cases "now s1")
  from assms s1 n have f: "find (\<lambda>p. p_id p = pid) (projects s1) \<noteq> None"
    by (auto simp: project_update_def split: option.splits)
  with assms s1 n have s': "s' = s2\<lparr>projects := map (\<lambda>r. if p_id r = pid then (data r)\<lparr>p_updatedAt := u\<rparr> else r) (projects s2)\<rparr>"
    by (auto simp: project_update_def)
  show ?thesis
    using statement_frame[OF s1] now_frame[OF n] now_ticks[OF n] s' f by (intro exI[of _ u]) simp
qed

lemma goal_update_Inr:
  assumes "goal_update gid data s = Inr s'"
  shows "\<exists>u. clock s \<le> u \<and> clock s' = u \<and> (ticks s = [] \<longrightarrow> u = clock s \<and> ticks s' = []) \<and>
     goals s' = map (\<lambda>r. if g_id r = gid then (data r)\<lparr>g_updatedAt := u\<rparr> else r) (goals s) \<and>
     projects s' = projects s \<and> tasks s' = tasks s \<and> find (\<lambda>g. g_id g = gid) (goals s) \<noteq> None"
proof -
  from assms obtain s1 where s1: "statement s = Inr s1"
    by (auto simp: goal_update_def split: sum.splits)
  obtain u s2 where n: "now s1 = (u, s2)" by (cases "now s1")
  from assms s1 n have f: "find (\<lambda>p. g_id p = gid) (goals s1) \<noteq> None"
    by (auto simp: goal_update_def split: option.splits)
  with assms s1 n have s': "s' = s2\<lparr>goals := map (\<lambda>r. if g_id r = gid then (data r)\<lparr>g_updatedAt := u\<rparr> else r) (goals s2)\<rparr>"
    by (auto simp: goal_update_def)
  show ?thesis
    using statement_frame[OF s1] now_frame[OF n] now_ticks[OF n] s' f by (intro exI[of _ u]) simp
qed

lemma task_update_Inr:
  assumes "task_update tid data s = Inr s'"
  shows "\<exists>u. clock s \<le> u \<and> clock s' = u \<and> (ticks s = [] \<longrightarrow> u = clock s \<and> ticks s' = []) \<and>
     tasks s' = map (\<lambda>r. if t_id r = tid then (data r)\<lparr>t_updatedAt := u\<rparr> else r) (tasks s) \<and>
     projects s' = projects s \<and> goals s' = goals s \<and> find (\<lambda>t. t_id t = tid) (tasks s) \<noteq> None"
proof -
  from assms obtain s1 where s1: "statement s = Inr s1"
    by (auto simp: task_update_def split: sum.splits)
  obtain u s2 where n: "now s1 = (u, s2)" by (cases "now s1")
  from assms s1 n have f: "find (\<lambda>p. t_id p = tid) (tasks s1) \<noteq> None"
    by (auto simp: task_update_def split: option.splits)
  with assms s1 n have s': "s' = s2\<lparr>tasks := map (\<lambda>r. if t_id r = tid then (data r)\<lparr>t_updatedAt := u\<rparr> else r) (tasks s2)\<rparr>"
    by (auto simp: task_update_def)
  show ?thesis
    using statement_frame[OF s1] now_frame[OF n] now_ticks[OF n] s' f by (intro exI[of _ u]) simp
qed

lemma transaction_Inl:
  "transaction body s = Inl (e, s') \<Longrightarrow>
     projects s' = projects s \<and> goals s' = goals s \<and> tasks s' = tasks s"
  by (auto simp: transaction_def split: sum.splits)

lemma transaction_Inr: "transaction body s = Inr s' \<Longrightarrow> body s = Inr s'"
  by (auto simp: transaction_def split: sum.splits)

lemma deleteProject_cases:
  assumes "deleteProject pid s = Inr s'"
  obtains d1 u1 d2 u2 d3 u3 where
      "clock s \<le> d1 \<and> d1 \<le> u1 \<and> u1 \<le> d2 \<and> d2 \<le> u2 \<and> u2 \<le> d3 \<and> d3 \<le> u3"
      "ticks s = [] \<longrightarrow> d1 = clock s \<and> d3 = clock s"
      "tasks s' =
        map (\<lambda>t. if (\<exists>g \<in> set (goals s). g_id g = t_goalId t \<and> g_projectId g = pid) \<and>
                     t_deletedAt t = None
                  then t\<lparr>t_deletedAt := Some d1, t_updatedAt := u1\<rparr> else t) (tasks s)"
      "goals s' =
        map (\<lambda>g. if g_projectId g = pid \<and> g_deletedAt g = None
                  then g\<lparr>g_deletedAt := Some d2, g_updatedAt := u2\<rparr> else g) (goals s)"
      "projects s' =
        map (\<lambda>p. if p_id p = pid then p\<lparr>p_deletedAt := Some d3, p_updatedAt := u3\<rparr> else p)
          (projects s)"
proof -
  from assms obtain ep where "find (\<lambda>p. p_id p = pid \<and> p_deletedAt p = None) (projects s) = Some ep"
    by (auto simp: deleteProject_def split: option.splits)
  with assms have body: "(case now s of (d1, tx1) \<Rightarrow>
            (case task_updateMany
                    (\<lambda>t. (\<exists>g \<in> set (goals tx1). g_id g = t_goalId t \<and> g_projectId g = pid)
                          \<and> t_deletedAt t = None)
                    (\<lambda>t. t\<lparr>t_deletedAt := Some d1\<rparr>) tx1 of
               Inl e \<Rightarrow> Inl e
             | Inr tx2 \<Rightarrow>
                 (case now tx2 of (d2, tx3) \<Rightarrow>
                  (case goal_updateMany (\<lambda>g. g_projectId g = pid \<and> g_deletedAt g = None)
                          (\<lambda>g. g\<lparr>g_deletedAt := Some d2\<rparr>) tx3 of
                     Inl e \<Rightarrow> Inl e
                   | Inr tx4 \<Rightarrow>
                       (case now tx4 of (d3, tx5) \<Rightarrow>
                          project_update pid (\<lambda>p. p\<lparr>p_deletedAt := Some d3\<rparr>) tx5))))) = Inr s'"
    by (auto simp: deleteProject_def dest: transaction_Inr)
  obtain d1 tx1 where n1: "now s = (d1, tx1)" by (cases "now s")
  from body n1 obtain tx2 where w1: "task_updateMany
                    (\<lambda>t. (\<exists>g \<in> set (goals tx1). g_id g = t_goalId t \<and> g_projectId g = pid)
                          \<and> t_deletedAt t = None)
                    (\<lambda>t. t\<lparr>t_deletedAt := Some d1\<rparr>) tx1 = Inr tx2"
    by (auto split: sum.splits)
  obtain d2 tx3 where n2: "now tx2 = (d2, tx3)" by (cases "now tx2")
  from body n1 w1 n2 obtain tx4 where w2: "goal_updateMany (\<lambda>g. g_projectId g = pid \<and> g_deletedAt g = None)
                          (\<lambda>g. g\<lparr>g_deletedAt := Some d2\<rparr>) tx3 = Inr tx4"
    by (auto split: sum.splits)
  obtain d3 tx5 where n3: "now tx4 = (d3, tx5)" by (cases "now tx4")
  from body n1 w1 n2 w2 n3 have w3: "project_update pid (\<lambda>p. p\<lparr>p_deletedAt := Some d3\<rparr>) tx5 = Inr s'"
    by simp
  from task_updateMany_Inr[OF w1] obtain u1 where u1:
    "clock tx1 \<le> u1" "clock tx2 = u1" "ticks tx1 = [] \<longrightarrow> u1 = clock tx1 \<and> ticks tx2 = []"
    "tasks tx2 = map (\<lambda>r. if (\<exists>g \<in> set (goals tx1). g_id g = t_goalId r \<and> g_projectId g = pid)
                          \<and> t_deletedAt r = None then (r\<lparr>t_deletedAt := Some d1\<rparr>)\<lparr>t_updatedAt := u1\<rparr> else r) (tasks tx1)"
    "projects tx2 = projects tx1" "goals tx2 = goals tx1" by blast
  from goal_updateMany_Inr[OF w2] obtain u2 where u2:
    "clock tx3 \<le> u2" "clock tx4 = u2" "ticks tx3 = [] \<longrightarrow> u2 = clock tx3 \<and> ticks tx4 = []"
    "goals tx4 = map (\<lambda>r. if g_projectId r = pid \<and> g_deletedAt r = None then (r\<lparr>g_deletedAt := Some d2\<rparr>)\<lparr>g_updatedAt := u2\<rparr> else r) (goals tx3)"
    "projects tx4 = projects tx3" "tasks tx4 = tasks tx3" by blast
  from project_update_Inr[OF w3] obtain u3 where u3:
    "clock tx5 \<le> u3" "clock s' = u3" "ticks tx5 = [] \<longrightarrow> u3 = clock tx5 \<and> ticks s' = []"
    "projects s' = map (\<lambda>r. if p_id r = pid then (r\<lparr>p_deletedAt := Some d3\<rparr>)\<lparr>p_updatedAt := u3\<rparr> else r) (projects tx5)"
    "goals s' = goals tx5" "tasks s' = tasks tx5" by blast
  note f1 = now_frame[OF n1] now_ticks[OF n1]
  note f2 = now_frame[OF n2] now_ticks[OF n2]
  note f3 = now_frame[OF n3] now_ticks[OF n3]
  have ord: "clock s \<le> d1 \<and> d1 \<le> u1 \<and> u1 \<le> d2 \<and> d2 \<le> u2 \<and> u2 \<le> d3 \<and> d3 \<le> u3"
    using f1 f2 f3 u1(1,2) u2(1,2) u3(1,2) by simp
  have still: "ticks s = [] \<longrightarrow> d1 = clock s \<and> d3 = clock s"
    using f1 f2 f3 u1(1,2,3) u2(1,2,3) by auto
  have t: "tasks s' =
        map (\<lambda>t. if (\<exists>g \<in> set (goals s). g_id g = t_goalId t \<and> g_projectId g = pid) \<and>
                     t_deletedAt t = None
                  then t\<lparr>t_deletedAt := Some d1, t_updatedAt := u1\<rparr> else t) (tasks s)"
    using f1 f2 f3 u1 u2 u3 by simp
  have g: "goals s' =
        map (\<lambda>g. if g_projectId g = pid \<and> g_deletedAt g = None
                  then g\<lparr>g_deletedAt := Some d2, g_updatedAt := u2\<rparr> else g) (goals s)"
    using f1 f2 f3 u1 u2 u3 by simp
  have p: "projects s' =
        map (\<lambda>p. if p_id p = pid then p\<lparr>p_deletedAt := Some d3, p_updatedAt := u3\<rparr> else p)
          (projects s)"
    using f1 f2 f3 u1 u2 u3 by simp
  show ?thesis by (rule that[OF ord still t g p])
qed

lemma deleteProject_Inr:
  assumes "deleteProject pid s = Inr s'"
  shows "\<exists>d1 u1 d2 u2 d3 u3.
      clock s \<le> d1 \<and> d1 \<le> u1 \<and> u1 \<le> d2 \<and> d2 \<le> u2 \<and> u2 \<le> d3 \<and> d3 \<le> u3 \<and>
      (ticks s = [] \<longrightarrow> d1 = clock s \<and> d3 = clock s) \<and>
      tasks s' =
        map (\<lambda>t. if (\<exists>g \<in> set (goals s). g_id g = t_goalId t \<and> g_projectId g = pid) \<and>
                     t_deletedAt t = None
                  then t\<lparr>t_deletedAt := Some d1, t_updatedAt := u1\<rparr> else t) (tasks s) \<and>
      goals s' =
        map (\<lambda>g. if g_projectId g = pid \<and> g_deletedAt g = None
                  then g\<lparr>g_deletedAt := Some d2, g_updatedAt := u2\<rparr> else g) (goals s) \<and>
      projects s' =
        map (\<lambda>p. if p_id p = pid then p\<lparr>p_deletedAt := Some d3, p_updatedAt := u3\<rparr> else p)
          (projects s)"
proof -
  from assms obtain d1 u1 d2 u2 d3 u3 where c:
      "clock s \<le> d1 \<and> d1 \<le> u1 \<and> u1 \<le> d2 \<and> d2 \<le> u2 \<and> u2 \<le> d3 \<and> d3 \<le> u3"
      "ticks s = [] \<longrightarrow> d1 = clock s \<and> d3 = clock s"
      "tasks s' =
        map (\<lambda>t. if (\<exists>g \<in> set (goals s). g_id g = t_goalId t \<and> g_projectId g = pid) \<and>
                     t_deletedAt t = None
                  then t\<lparr>t_deletedAt := Some d1, t_updatedAt := u1\<rparr> else t) (tasks s)"
      "goals s' =
        map (\<lambda>g. if g_projectId g = pid \<and> g_deletedAt g = None
                  then g\<lparr>g_deletedAt := Some d2, g_updatedAt := u2\<rparr> else g) (goals s)"
      "projects s' =
        map (\<lambda>p. if p_id p = pid then p\<lparr>p_deletedAt := Some d3, p_updatedAt := u3\<rparr> else p)
          (projects s)"
    by (rule deleteProject_cases)
  show ?thesis
    apply (rule exI[of _ d1], rule exI[of _ u1], rule exI[of _ d2], rule exI[of _ u2],
        rule exI[of _ d3], rule exI[of _ u3])
    using c by simp
qed

lemma deleteGoal_cases:
  assumes "deleteGoal gid s = Inr s'"
  obtains d1 u1 d2 u2 where
      "clock s \<le> d1 \<and> d1 \<le> u1 \<and> u1 \<le> d2 \<and> d2 \<le> u2"
      "ticks s = [] \<longrightarrow> d1 = clock s \<and> d2 = clock s"
      "tasks s' =
        map (\<lambda>t. if t_goalId t = gid \<and> t_deletedAt t = None
                  then t\<lparr>t_deletedAt := Some d1, t_updatedAt := u1\<rparr> else t) (tasks s)"
      "goals s' =
        map (\<lambda>g. if g_id g = gid then g\<lparr>g_deletedAt := Some d2, g_updatedAt := u2\<rparr> else g)
          (goals s)"
      "projects s' = projects s"
proof -
  from assms obtain eg where "find (\<lambda>g. g_id g = gid \<and> g_deletedAt g = None) (goals s) = Some eg"
    by (auto simp: deleteGoal_def split: option.splits)
  with assms have body: "(case now s of (d1, tx1) \<Rightarrow>
            (case task_updateMany (\<lambda>t. t_goalId t = gid \<and> t_deletedAt t = None)
                    (\<lambda>t. t\<lparr>t_deletedAt := Some d1\<rparr>) tx1 of
               Inl e \<Rightarrow> Inl e
             | Inr tx2 \<Rightarrow>
                 (case now tx2 of (d2, tx3) \<Rightarrow>
                    goal_update gid (\<lambda>g. g\<lparr>g_deletedAt := Some d2\<rparr>) tx3))) = Inr s'"
    by (auto simp: deleteGoal_def dest: transaction_Inr)
  obtain d1 tx1 where n1: "now s = (d1, tx1)" by (cases "now s")
  from body n1 obtain tx2 where w1: "task_updateMany (\<lambda>t. t_goalId t = gid \<and> t_deletedAt t = None)
                    (\<lambda>t. t\<lparr>t_deletedAt := Some d1\<rparr>) tx1 = Inr tx2"
    by (auto split: sum.splits)
  obtain d2 tx3 where n2: "now tx2 = (d2, tx3)" by (cases "now tx2")
  from body n1 w1 n2 have w2: "goal_update gid (\<lambda>g. g\<lparr>g_deletedAt := Some d2\<rparr>) tx3 = Inr s'"
    by simp
  from task_updateMany_Inr[OF w1] obtain u1 where u1:
    "clock tx1 \<le> u1" "clock tx2 = u1" "ticks tx1 = [] \<longrightarrow> u1 = clock tx1 \<and> ticks tx2 = []"
    "tasks tx2 = map (\<lambda>r. if t_goalId r = gid \<and> t_deletedAt r = None
         then (r\<lparr>t_deletedAt := Some d1\<rparr>)\<lparr>t_updatedAt := u1\<rparr> else r) (tasks tx1)"
    "projects tx2 = projects tx1" "goals tx2 = goals tx1" by blast
  from goal_update_Inr[OF w2] obtain u2 where u2:
    "clock tx3 \<le> u2" "clock s' = u2" "ticks tx3 = [] \<longrightarrow> u2 = clock tx3 \<and> ticks s' = []"
    "goals s' = map (\<lambda>r. if g_id r = gid then (r\<lparr>g_deletedAt := Some d2\<rparr>)\<lparr>g_updatedAt := u2\<rparr> else r) (goals tx3)"
    "projects s' = projects tx3" "tasks s' = tasks tx3" by blast
  note f1 = now_frame[OF n1] now_ticks[OF n1]
  note f2 = now_frame[OF n2] now_ticks[OF n2]
  have ord: "clock s \<le> d1 \<and> d1 \<le> u1 \<and> u1 \<le> d2 \<and> d2 \<le> u2"
    using f1 f2 u1(1,2) u2(1,2) by simp
  have still: "ticks s = [] \<longrightarrow> d1 = clock s \<and> d2 = clock s"
    using f1 f2 u1(1,2,3) by auto
  have t: "tasks s' =
        map (\<lambda>t. if t_goalId t = gid \<and> t_deletedAt t = None
                  then t\<lparr>t_deletedAt := Some d1, t_updatedAt := u1\<rparr> else t) (tasks s)"
    using f1 f2 u1 u2 by simp
  have g: "goals s' =
        map (\<lambda>g. if g_id g = gid then g\<lparr>g_deletedAt := Some d2, g_updatedAt := u2\<rparr> else g)
          (goals s)"
    using f1 f2 u1 u2 by simp
  have p: "projects s' = projects s"
    using f1 f2 u1 u2 by simp
  show ?thesis by (rule that[OF ord still t g p])
qed

lemma deleteGoal_Inr:
  assumes "deleteGoal gid s = Inr s'"
  shows "\<exists>d1 u1 d2 u2.
      clock s \<le> d1 \<and> d1 \<le> u1 \<and> u1 \<le> d2 \<and> d2 \<le> u2 \<and>
      (ticks s = [] \<longrightarrow> d1 = clock s \<and> d2 = clock s) \<and>
      tasks s' =
        map (\<lambda>t. if t_goalId t = gid \<and> t_deletedAt t = None
                  then t\<lparr>t_deletedAt := Some d1, t_updatedAt := u1\<rparr> else t) (tasks s) \<and>
      goals s' =
        map (\<lambda>g. if g_id g = gid then g\<lparr>g_deletedAt := Some d2, g_updatedAt := u2\<rparr> else g)
          (goals s) \<and>
      projects s' = projects s"
proof -
  from assms obtain d1 u1 d2 u2 where c:
      "clock s \<le> d1 \<and> d1 \<le> u1 \<and> u1 \<le> d2 \<and> d2 \<le> u2"
      "ticks s = [] \<longrightarrow> d1 = clock s \<and> d2 = clock s"
      "tasks s' =
        map (\<lambda>t. if t_goalId t = gid \<and> t_deletedAt t = None
                  then t\<lparr>t_deletedAt := Some d1, t_updatedAt := u1\<rparr> else t) (tasks s)"
      "goals s' =
        map (\<lambda>g. if g_id g = gid then g\<lparr>g_deletedAt := Some d2, g_updatedAt := u2\<rparr> else g)
          (goals s)"
      "projects s' = projects s"
    by (rule deleteGoal_cases)
  show ?thesis
    apply (rule exI[of _ d1], rule exI[of _ u1], rule exI[of _ d2], rule exI[of _ u2])
    using c by simp
qed


lemma ball_map_ifI:
  "(\<And>x. x \<in> set xs \<Longrightarrow> P x \<Longrightarrow> Q (f x)) \<Longrightarrow> (\<And>x. x \<in> set xs \<Longrightarrow> \<not> P x \<Longrightarrow> Q x) \<Longrightarrow>
   \<forall>y \<in> set (map (\<lambda>x. if P x then f x else x) xs). Q y"
  by (induction xs) auto

lemma in_set_mapD: "y \<in> set (map f xs) \<Longrightarrow> \<exists>x \<in> set xs. y = f x"
  by auto

lemma deleteProject_Inl:
  "deleteProject pid s = Inl (e, s') \<Longrightarrow>
     projects s' = projects s \<and> goals s' = goals s \<and> tasks s' = tasks s"
  by (auto simp: deleteProject_def split: option.splits dest: transaction_Inl)

lemma deleteGoal_Inl:
  "deleteGoal gid s = Inl (e, s') \<Longrightarrow>
     projects s' = projects s \<and> goals s' = goals s \<and> tasks s' = tasks s"
  by (auto simp: deleteGoal_def split: option.splits dest: transaction_Inl)

lemma weakOrder_byKey: "weakOrder (byKey f d)"
  by (cases d) (auto simp: weakOrder_def byKey_def)

lemma weakOrder_sortsBefore: "list_all weakOrder cs \<Longrightarrow> weakOrder (sortsBefore cs)"
proof (induction cs)
  case Nil
  then show ?case by (simp add: weakOrder_def)
next
  case (Cons c cs)
  then have c: "weakOrder c" and r: "weakOrder (sortsBefore cs)" by simp_all
  have ca: "c x y \<Longrightarrow> \<not> c y x" for x y using c unfolding weakOrder_def by blast
  have ct: "\<not> c x y \<Longrightarrow> \<not> c y z \<Longrightarrow> \<not> c x z" for x y z
    using c unfolding weakOrder_def by blast
  have ra: "sortsBefore cs x y \<Longrightarrow> \<not> sortsBefore cs y x" for x y
    using r unfolding weakOrder_def by blast
  have rt: "\<not> sortsBefore cs x y \<Longrightarrow> \<not> sortsBefore cs y z \<Longrightarrow> \<not> sortsBefore cs x z"
    for x y z using r unfolding weakOrder_def by blast
  have asym: "\<not> sortsBefore (c # cs) b a" if "sortsBefore (c # cs) a b" for a b
    using that ca[of a b] ca[of b a] ra[of a b] by auto
  have trans: "\<not> sortsBefore (c # cs) a x"
    if "\<not> sortsBefore (c # cs) a b" "\<not> sortsBefore (c # cs) b x" for a b x
    using that ct[of a b x] ct[of b x a] ct[of x a b] rt[of a b x] by auto
  show ?case
    unfolding weakOrder_def using asym trans by blast
qed

lemma sorted_insertBy:
  assumes w: "weakOrder (sortsBefore cs)"
  shows "sorted_wrt (\<lambda>a b. \<not> sortsBefore cs b a) xs \<Longrightarrow>
         sorted_wrt (\<lambda>a b. \<not> sortsBefore cs b a) (insertBy cs x xs)"
proof (induction xs)
  case Nil
  then show ?case by simp
next
  case (Cons y ys)
  have asym: "sortsBefore cs a b \<Longrightarrow> \<not> sortsBefore cs b a" for a b
    using w unfolding weakOrder_def by blast
  have ntrans: "\<not> sortsBefore cs a b \<Longrightarrow> \<not> sortsBefore cs b c \<Longrightarrow> \<not> sortsBefore cs a c"
    for a b c using w unfolding weakOrder_def by blast
  from Cons.prems have ys: "sorted_wrt (\<lambda>a b. \<not> sortsBefore cs b a) ys"
    and y: "\<And>z. z \<in> set ys \<Longrightarrow> \<not> sortsBefore cs z y" by simp_all
  show ?case
  proof (cases "sortsBefore cs y x")
    case True
    have "sorted_wrt (\<lambda>a b. \<not> sortsBefore cs b a) (insertBy cs x ys)"
      using ys by (rule Cons.IH)
    moreover have "\<not> sortsBefore cs z y" if "z \<in> set (insertBy cs x ys)" for z
      using that y asym[OF True] by (auto simp: set_insertBy)
    ultimately show ?thesis using True by simp
  next
    case False
    have "\<not> sortsBefore cs z x" if "z \<in> set ys" for z
      using ntrans[OF y[OF that] False] .
    with False ys y show ?thesis by simp
  qed
qed

lemma sorted_orderBy:
  assumes w: "weakOrder (sortsBefore cs)"
  shows "sorted_wrt (\<lambda>a b. \<not> sortsBefore cs b a) (orderBy cs xs)"
proof (induction xs)
  case Nil
  show ?case by (simp add: orderBy_def)
next
  case (Cons x xs)
  have "orderBy cs (x # xs) = insertBy cs x (orderBy cs xs)" by (simp add: orderBy_def)
  with sorted_insertBy[OF w Cons] show ?case by simp
qed

lemma urgencyText_inj: "urgencyText a = urgencyText b \<longleftrightarrow> a = b"
  by (cases a; cases b) simp_all

lemma completionStamp_tables:
  "completionStamp d e s = (stamp, s1) \<Longrightarrow>
     tasks s1 = tasks s \<and> goals s1 = goals s \<and> projects s1 = projects s"
  unfolding completionStamp_def
  by (cases "now s") (auto split: option.splits if_splits dest: now_frame)

lemma completionStamp_keeps:
  assumes "completionStamp d e s = (stamp, s1)"
    and "(t_completedAt e \<noteq> None) = t_completed e"
  shows "(t_completedAt (case stamp of None \<Rightarrow> applyPatch d e
                         | Some v \<Rightarrow> (applyPatch d e)\<lparr>t_completedAt := v\<rparr>) \<noteq> None)
         = t_completed (case stamp of None \<Rightarrow> applyPatch d e
                         | Some v \<Rightarrow> (applyPatch d e)\<lparr>t_completedAt := v\<rparr>)"
proof (cases "u_completed d")
  case None
  with assms show ?thesis by (simp add: completionStamp_def applyPatch_def)
next
  case (Some c)
  obtain t s' where n: "now s = (t, s')" by (cases "now s")
  show ?thesis
  proof (cases "c \<and> \<not> t_completed e")
    case True
    with assms Some n show ?thesis by (auto simp: completionStamp_def applyPatch_def)
  next
    case False
    note nf = False
    show ?thesis
    proof (cases "\<not> c \<and> t_completed e")
      case True
      with assms Some nf show ?thesis by (auto simp: completionStamp_def applyPatch_def)
    next
      case False
      with assms Some nf show ?thesis by (auto simp: completionStamp_def applyPatch_def)
    qed
  qed
qed

lemma distinct_map_eq:
  "distinct (map f xs) \<Longrightarrow> x \<in> set xs \<Longrightarrow> y \<in> set xs \<Longrightarrow> f x = f y \<Longrightarrow> x = y"
  by (meson distinct_map inj_onD)

lemma find_SomeD: "find P xs = Some x \<Longrightarrow> x \<in> set xs \<and> P x"
  by (induction xs) (auto split: if_splits)

lemma updateTask_cases:
  assumes "updateTask tid d s = Inr s'"
  obtains e stamp s1 where
    "find (\<lambda>t. t_id t = tid \<and> t_deletedAt t = None) (tasks s) = Some e"
    "completionStamp d e s = (stamp, s1)"
    "task_update tid (\<lambda>t. (case stamp of None \<Rightarrow> applyPatch d t
                               | Some v \<Rightarrow> (applyPatch d t)\<lparr>t_completedAt := v\<rparr>)) s1 = Inr s'"
proof -
  from assms obtain e where e: "find (\<lambda>t. t_id t = tid \<and> t_deletedAt t = None) (tasks s) = Some e"
    by (cases "find (\<lambda>t. t_id t = tid \<and> t_deletedAt t = None) (tasks s)")
       (simp_all add: updateTask_def)
  obtain stamp s1 where c: "completionStamp d e s = (stamp, s1)"
    by (cases "completionStamp d e s")
  from assms e c have
    "task_update tid (\<lambda>t. (case stamp of None \<Rightarrow> applyPatch d t
                               | Some v \<Rightarrow> (applyPatch d t)\<lparr>t_completedAt := v\<rparr>)) s1 = Inr s'"
    by (simp add: updateTask_def split: option.splits if_splits)
  with e c show ?thesis by (rule that)
qed

lemma syncTask_update_cases:
  assumes "presentId (ct_id ct) = Some tid"
    and "find (\<lambda>t. t_id t = tid) serverTasks = Some serverTask"
    and "syncTask gid serverTasks ct (s, r) = Inr (s', r')"
  shows "task_update tid
           (\<lambda>t. t\<lparr>t_name := ct_name ct, t_completed := ct_completed ct,
                  t_urgency := ct_urgency ct, t_todaysFocus := ct_todaysFocus ct,
                  t_completedAt := ct_completedAt ct\<rparr>) s = Inr s' \<and>
         r' = r\<lparr>updated := (updated r)\<lparr>n_tasks := n_tasks (updated r) + 1\<rparr>\<rparr>"
  using assms by (simp add: syncTask_def split: sum.splits)

lemma cuid_inj [simp]: "cuid a = cuid b \<longleftrightarrow> a = b"
proof
  assume "cuid a = cuid b"
  then have "length (cuid a) = length (cuid b)" by simp
  then show "a = b" by (simp add: cuid_def)
qed simp

lemma foldl_sum: "foldl (\<lambda>sum g. sum + f g) (a::nat) xs = a + sum_list (map f xs)"
  by (induction xs arbitrary: a) simp_all

lemma mkGoals_fst_length: "length (fst (mkGoals k pid t gds)) = length gds"
  by (induction k pid t gds rule: mkGoals.induct) (simp_all add: split_beta)

lemma mkGoals_snd_length:
  "length (snd (mkGoals k pid t gds)) = sum_list (map (\<lambda>gd. length (snd gd)) gds)"
  by (induction k pid t gds rule: mkGoals.induct) (simp_all add: split_beta)

lemma mkGoals_goal:
  "g \<in> set (fst (mkGoals k pid t gds)) \<Longrightarrow>
     g_projectId g = pid \<and> g_deletedAt g = None \<and> g_createdAt g = t \<and> (\<exists>j\<ge>k. g_id g = cuid j)"
proof (induction k pid t gds rule: mkGoals.induct)
  case (1 k pid t)
  then show ?case by simp
next
  case (2 k pid t n ds rest)
  from "2.prems" have "g = mkGoal (cuid k) pid t n \<or> g \<in> set (fst (mkGoals (Suc k + length ds) pid t rest))"
    by (simp add: split_beta)
  then show ?case
  proof
    assume "g = mkGoal (cuid k) pid t n"
    then have "g_projectId g = pid \<and> g_deletedAt g = None \<and> g_createdAt g = t \<and> g_id g = cuid k" by (simp add: mkGoal_def)
    then show ?thesis by (metis order_refl)
  next
    assume "g \<in> set (fst (mkGoals (Suc k + length ds) pid t rest))"
    from "2.IH"[OF this] obtain j where "g_projectId g = pid \<and> g_deletedAt g = None \<and> g_createdAt g = t" "j \<ge> Suc k + length ds" "g_id g = cuid j"
      by metis
    then show ?thesis by (metis Suc_leD le_add1 le_trans add_Suc)
  qed
qed

lemma mkGoals_task:
  "x \<in> set (snd (mkGoals k pid t gds)) \<Longrightarrow> t_deletedAt x = None \<and> (\<exists>j\<ge>k. t_goalId x = cuid j)"
proof (induction k pid t gds rule: mkGoals.induct)
  case (1 k pid t)
  then show ?case by simp
next
  case (2 k pid t n ds rest)
  from "2.prems" have "x \<in> set (mkTasks (Suc k) (cuid k) t ds) \<or> x \<in> set (snd (mkGoals (Suc k + length ds) pid t rest))"
    by (simp add: split_beta)
  then show ?case
  proof
    assume "x \<in> set (mkTasks (Suc k) (cuid k) t ds)"
    from mkTasks_stamps[OF this] have "t_deletedAt x = None \<and> t_goalId x = cuid k" by simp
    then show ?thesis by (metis order_refl)
  next
    assume "x \<in> set (snd (mkGoals (Suc k + length ds) pid t rest))"
    from "2.IH"[OF this] obtain j where "t_deletedAt x = None" "j \<ge> Suc k + length ds" "t_goalId x = cuid j"
      by metis
    then show ?thesis by (metis Suc_leD le_add1 le_trans add_Suc)
  qed
qed

lemma filter_all: "(\<And>x. x \<in> set xs \<Longrightarrow> P x) \<Longrightarrow> filter P xs = xs"
  by (induction xs) auto

lemma filter_none: "(\<And>x. x \<in> set xs \<Longrightarrow> \<not> P x) \<Longrightarrow> filter P xs = []"
  by (induction xs) auto

lemma mkGoals_subtree:
  "map (\<lambda>g. (g_name g,
            map (\<lambda>r. (t_name r, t_completed r, t_urgency r, t_todaysFocus r, t_completedAt r))
              (filter (\<lambda>x. t_goalId x = g_id g) (snd (mkGoals k pid t gds)))))
     (fst (mkGoals k pid t gds)) = gds"
proof (induction k pid t gds rule: mkGoals.induct)
  case (1 k pid t)
  then show ?case by simp
next
  case (2 k pid t n ds rest)
  let ?k' = "Suc k + length ds"
  let ?gs = "fst (mkGoals ?k' pid t rest)"
  let ?ts = "snd (mkGoals ?k' pid t rest)"
  let ?mine = "mkTasks (Suc k) (cuid k) t ds"
  let ?data = "\<lambda>r. (t_name r, t_completed r, t_urgency r, t_todaysFocus r, t_completedAt r)"
  have fst_eq: "fst (mkGoals k pid t ((n, ds) # rest)) = mkGoal (cuid k) pid t n # ?gs"
    and snd_eq: "snd (mkGoals k pid t ((n, ds) # rest)) = ?mine @ ?ts"
    by (simp_all add: split_beta)
  have mine_all: "filter (\<lambda>x. t_goalId x = cuid k) ?mine = ?mine"
    by (rule filter_all) (simp add: mkTasks_stamps)
  have rest_none: "filter (\<lambda>x. t_goalId x = cuid k) ?ts = []"
  proof (rule filter_none)
    fix x assume "x \<in> set ?ts"
    from mkGoals_task[OF this] obtain j where "j \<ge> ?k'" "t_goalId x = cuid j" by metis
    then show "\<not> t_goalId x = cuid k" by simp
  qed
  have head: "?data ` {} = {}" by simp
  have hd_eq: "(g_name (mkGoal (cuid k) pid t n),
      map ?data (filter (\<lambda>x. t_goalId x = g_id (mkGoal (cuid k) pid t n)) (?mine @ ?ts))) = (n, ds)"
    using mine_all rest_none by (simp add: mkGoal_def mkTasks_data)
  have tl_eq: "map (\<lambda>g. (g_name g, map ?data (filter (\<lambda>x. t_goalId x = g_id g) (?mine @ ?ts)))) ?gs
      = map (\<lambda>g. (g_name g, map ?data (filter (\<lambda>x. t_goalId x = g_id g) ?ts))) ?gs"
  proof (rule map_cong[OF refl])
    fix g assume "g \<in> set ?gs"
    from mkGoals_goal[OF this] obtain j where j: "j \<ge> ?k'" "g_id g = cuid j" by metis
    have "filter (\<lambda>x. t_goalId x = g_id g) ?mine = []"
    proof (rule filter_none)
      fix x assume "x \<in> set ?mine"
      from mkTasks_stamps[OF this] have "t_goalId x = cuid k" by simp
      with j show "\<not> t_goalId x = g_id g" by simp
    qed
    then show "(g_name g, map ?data (filter (\<lambda>x. t_goalId x = g_id g) (?mine @ ?ts)))
      = (g_name g, map ?data (filter (\<lambda>x. t_goalId x = g_id g) ?ts))" by simp
  qed
  show ?case
    unfolding fst_eq snd_eq list.map hd_eq tl_eq "2.IH" ..
qed

lemma find_append_None: "find P xs = None \<Longrightarrow> find P (xs @ ys) = find P ys"
  by (induction xs) (auto split: if_splits)

lemma find_noneI: "(\<And>x. x \<in> set xs \<Longrightarrow> \<not> P x) \<Longrightarrow> find P xs = None"
  by (induction xs) auto

section \<open>C1: the writes of a sync request are not one transaction\<close>

text \<open>
  C1 says that all writes of one reconciliation pass run inside a single transaction, so
  that a failing write leaves none of them visible. \<open>syncData\<close> issues each write on the
  \<open>prisma\<close> handle itself; only \<open>deleteProject\<close> and \<open>deleteGoal\<close> open a transaction.
  On a store that accepts one more write and then fails, a request with two new projects
  throws at the second create, and the first project with its goal and its task stays in
  the store.
\<close>

theorem sync_failure_keeps_earlier_writes:
  "(case syncData \<lparr>req_projects = [newProject ''A'', newProject ''B''], lastSyncedAt = None\<rparr>
           (emptyStore\<lparr>writesUntilFailure := Some 1\<rparr>) of
      Inl (e, s') \<Rightarrow>
        e = StoreFailure \<and> map p_name (projects s') = [''A''] \<and>
        map g_name (goals s') = [''G1''] \<and> map t_name (tasks s') = [''T1'']
    | Inr ok \<Rightarrow> False) \<and>
   projects emptyStore = [] \<and> goals emptyStore = [] \<and> tasks emptyStore = []"
  by (simp add: syncData_def syncProject_def newProject_def newGoal_def newTask_def
      emptyStore_def project_create_def statement_def now_def goalDataOf_def taskDataOf_def
      mkProject_def mkGoal_def mkTask_def subtreeSize_def)

section \<open>C5: an id the server does not know is skipped\<close>

text \<open>
  C5: a client goal whose id matches no live goal of the matched project, and a client
  task whose id matches no live task of the matched goal, are skipped: the step for that
  entity returns the store and the counters as they were, whatever the entity carries
  beneath it, and it does not throw. \<open>s0\<close> is the store at the read of the project,
  \<open>st\<close> the store and counters when the entity is reached.
\<close>

theorem sync_skips_unknown_ids:
  "(project_findUnique pid s0 = Some sp \<and> presentId (cg_id cg) = Some gid \<and>
      \<not> (\<exists>g \<in> set (goals s0). g_id g = gid \<and> g_projectId g = pid \<and> g_deletedAt g = None)
      \<longrightarrow> syncGoal pid (snd sp) cg st = Inr st) \<and>
   (project_findUnique pid s0 = Some sp \<and> sg \<in> set (snd sp) \<and>
      presentId (ct_id ct) = Some tid \<and>
      \<not> (\<exists>t \<in> set (tasks s0). t_id t = tid \<and> t_goalId t = g_id (fst sg) \<and> t_deletedAt t = None)
      \<longrightarrow> syncTask gid' (snd sg) ct st = Inr st)"
proof (intro conjI impI)
  assume a: "project_findUnique pid s0 = Some sp \<and> presentId (cg_id cg) = Some gid \<and>
      \<not> (\<exists>g \<in> set (goals s0). g_id g = gid \<and> g_projectId g = pid \<and> g_deletedAt g = None)"
  then obtain p where p: "find (\<lambda>p. p_id p = pid) (projects s0) = Some p" "sp = includeGoals s0 p"
    by (auto simp: project_findUnique_def)
  then have pid: "p_id p = pid" by (auto dest: find_Some_iff[THEN iffD1])
  have "find (\<lambda>sg. g_id (fst sg) = gid) (snd sp) = None"
    using a p pid by (auto simp: find_None_iff includeGoals_def includeTasks_def)
  then show "syncGoal pid (snd sp) cg st = Inr st"
    using a by (cases st) (simp add: syncGoal_def)
next
  assume a: "project_findUnique pid s0 = Some sp \<and> sg \<in> set (snd sp) \<and>
      presentId (ct_id ct) = Some tid \<and>
      \<not> (\<exists>t \<in> set (tasks s0). t_id t = tid \<and> t_goalId t = g_id (fst sg) \<and> t_deletedAt t = None)"
  then obtain p where p: "find (\<lambda>p. p_id p = pid) (projects s0) = Some p" "sp = includeGoals s0 p"
    by (auto simp: project_findUnique_def)
  have "find (\<lambda>t. t_id t = tid) (snd sg) = None"
    using a p by (auto simp: find_None_iff includeGoals_def includeTasks_def)
  then show "syncTask gid' (snd sg) ct st = Inr st"
    using a by (cases st) (simp add: syncTask_def)
qed

theorem sync_skips_unknown_ids_witness:
  "project_findUnique ''p1'' demoStore = Some (workProject, [(shipGoal, [writeTask])]) \<and>
   syncGoal ''p1'' [(shipGoal, [writeTask])] ghostGoal (demoStore, noResults)
     = Inr (demoStore, noResults) \<and>
   syncTask ''g1'' [writeTask] ghostTask (demoStore, noResults) = Inr (demoStore, noResults)"
proof -
  have fu: "project_findUnique ''p1'' demoStore = Some (workProject, [(shipGoal, [writeTask])])"
    by (simp add: project_findUnique_def includeGoals_def includeTasks_def demoStore_def
        workProject_def oldProject_def shipGoal_def writeTask_def)
  have g: "presentId (cg_id ghostGoal) = Some ''g9'' \<and>
      \<not> (\<exists>g \<in> set (goals demoStore).
            g_id g = ''g9'' \<and> g_projectId g = ''p1'' \<and> g_deletedAt g = None)"
    by (simp add: ghostGoal_def demoStore_def shipGoal_def)
  have t: "(shipGoal, [writeTask]) \<in> set (snd (workProject, [(shipGoal, [writeTask])])) \<and>
      presentId (ct_id ghostTask) = Some ''t9'' \<and>
      \<not> (\<exists>t \<in> set (tasks demoStore).
            t_id t = ''t9'' \<and> t_goalId t = g_id (fst (shipGoal, [writeTask])) \<and>
            t_deletedAt t = None)"
    by (simp add: ghostTask_def demoStore_def writeTask_def)
  show ?thesis
    using fu g t
      sync_skips_unknown_ids[of "''p1''" demoStore "(workProject, [(shipGoal, [writeTask])])"
        ghostGoal "''g9''" "(demoStore, noResults)" "(shipGoal, [writeTask])" ghostTask "''t9''"
        "''g1''"]
    by simp
qed

section \<open>C8: the watermark does not reach the response\<close>

text \<open>
  C8: the \<open>serverState\<close> of the response is the complete live hierarchy of the store after
  the merge, and \<open>lastSyncedAt\<close> has no part in it. The result of the first query, the
  only place where \<open>lastSyncedAt\<close> is read, is not used: two requests that differ in
  \<open>lastSyncedAt\<close> only have the same outcome on the same store. The response lists
  exactly the live projects of the store it leaves, each with exactly its live goals, each
  of these with exactly its live tasks.
\<close>

theorem sync_serverState_ignores_lastSyncedAt:
  "syncData (req\<lparr>lastSyncedAt := a\<rparr>) s = syncData (req\<lparr>lastSyncedAt := b\<rparr>) s \<and>
   (\<forall>resp s'. syncData req s = Inr (resp, s') \<longrightarrow>
      serverState resp = project_findMany s' \<and>
      fst ` set (serverState resp) = {p \<in> set (projects s'). p_deletedAt p = None} \<and>
      (\<forall>pg \<in> set (serverState resp).
         fst ` set (snd pg) =
           {g \<in> set (goals s'). g_projectId g = p_id (fst pg) \<and> g_deletedAt g = None} \<and>
         (\<forall>gt \<in> set (snd pg).
            set (snd gt) =
              {t \<in> set (tasks s'). t_goalId t = g_id (fst gt) \<and> t_deletedAt t = None})))"
proof -
  have eq: "syncData (req\<lparr>lastSyncedAt := a\<rparr>) s = syncData (req\<lparr>lastSyncedAt := b\<rparr>) s"
    by (simp add: syncData_def Let_def)
  have st: "serverState resp = project_findMany s'"
    if "syncData req s = Inr (resp, s')" for resp s'
    using that now_frame
    by (fastforce simp: syncData_def Let_def project_findMany_def
        split: sum.splits prod.splits)
  have p: "fst ` set (project_findMany s') = {p \<in> set (projects s'). p_deletedAt p = None}"
    for s'
    by (force simp: project_findMany_def set_orderBy image_image)
  have g: "fst ` set (snd pg) =
           {g \<in> set (goals s'). g_projectId g = p_id (fst pg) \<and> g_deletedAt g = None}"
    if "pg \<in> set (project_findMany s')" for pg s'
    using that by (force simp: project_findMany_def set_orderBy image_image)
  have t: "set (snd gt) =
              {t \<in> set (tasks s'). t_goalId t = g_id (fst gt) \<and> t_deletedAt t = None}"
    if "pg \<in> set (project_findMany s')" "gt \<in> set (snd pg)" for pg gt s'
    using that by (force simp: project_findMany_def set_orderBy image_image)
  show ?thesis using eq st p g t by (metis (no_types, lifting))
qed

theorem sync_serverState_ignores_lastSyncedAt_witness:
  "syncData \<lparr>req_projects = [newProject ''A''], lastSyncedAt = Some 5\<rparr> demoStore =
   syncData \<lparr>req_projects = [newProject ''A''], lastSyncedAt = None\<rparr> demoStore \<and>
   (\<exists>resp s'. syncData \<lparr>req_projects = [newProject ''A''], lastSyncedAt = None\<rparr> demoStore
        = Inr (resp, s') \<and>
      serverState resp = project_findMany s' \<and>
      fst ` set (serverState resp) = {p \<in> set (projects s'). p_deletedAt p = None} \<and>
      map (\<lambda>pg. p_name (fst pg)) (serverState resp) = [''Work'', ''A''])"
proof -
  let ?req = "\<lparr>req_projects = [newProject ''A''], lastSyncedAt = None\<rparr>"
  have run: "(case syncData ?req demoStore of
               Inl e \<Rightarrow> False
             | Inr x \<Rightarrow> map (\<lambda>pg. p_name (fst pg)) (serverState (fst x)) = [''Work'', ''A''])"
    by code_simp
  then obtain resp s' where r: "syncData ?req demoStore = Inr (resp, s')"
      and names: "map (\<lambda>pg. p_name (fst pg)) (serverState resp) = [''Work'', ''A'']"
    by (cases "syncData ?req demoStore") auto
  from sync_serverState_ignores_lastSyncedAt[where req = ?req and a = "Some 5" and s = demoStore
      and b = None] r names
  show ?thesis by auto
qed

section \<open>C7: the cascade of a soft delete\<close>

text \<open>
  C7 says that after a soft delete the entity and every descendant carry the same
  \<open>deletedAt\<close> value. Each of the three statements of \<open>deleteProject\<close> takes a
  \<open>new Date()\<close> of its own: on a store whose clock advances by a millisecond at each
  reading, the task, the goal and the project of \<open>demoStore\<close> get three different
  timestamps.
\<close>

theorem soft_delete_timestamps_differ:
  "(case deleteProject ''p1'' demoStore of
      Inl e \<Rightarrow> False
    | Inr s' \<Rightarrow>
        map t_deletedAt (tasks s') = [Some 1001] \<and>
        map g_deletedAt (goals s') = [Some 1003] \<and>
        map p_deletedAt (projects s') = [Some 1005, Some 30])"
  by code_simp

text \<open>
  C7 as amended: \<open>deleteProject\<close> (\<open>deleteGoal\<close>) marks the project (goal) and every
  live goal and task beneath it, in one transaction. When it returns, the tables hold the
  same rows as before, in the same order, changed only in \<open>deletedAt\<close> and \<open>updatedAt\<close>:
  the tasks marked carry the reading \<open>d1\<close>, the goals \<open>d2\<close>, the project \<open>d3\<close>,
  with \<open>d1 \<le> d2 \<le> d3\<close>, all equal to the clock when it does not advance during
  the transaction; no goal of the project, no task of such a goal and no row with the id
  is left without a \<open>deletedAt\<close>. When it throws, the three tables are as they were.
\<close>

theorem soft_delete_cascade:
  "(deleteProject pid s = Inr s' \<longrightarrow>
      (\<exists>d1 u1 d2 u2 d3 u3.
        clock s \<le> d1 \<and> d1 \<le> u1 \<and> u1 \<le> d2 \<and> d2 \<le> u2 \<and> u2 \<le> d3 \<and> d3 \<le> u3 \<and>
        (ticks s = [] \<longrightarrow> d1 = clock s \<and> d3 = clock s) \<and>
        tasks s' =
          map (\<lambda>t. if (\<exists>g \<in> set (goals s). g_id g = t_goalId t \<and> g_projectId g = pid) \<and>
                       t_deletedAt t = None
                    then t\<lparr>t_deletedAt := Some d1, t_updatedAt := u1\<rparr> else t) (tasks s) \<and>
        goals s' =
          map (\<lambda>g. if g_projectId g = pid \<and> g_deletedAt g = None
                    then g\<lparr>g_deletedAt := Some d2, g_updatedAt := u2\<rparr> else g) (goals s) \<and>
        projects s' =
          map (\<lambda>p. if p_id p = pid then p\<lparr>p_deletedAt := Some d3, p_updatedAt := u3\<rparr> else p)
            (projects s)) \<and>
      (\<forall>p \<in> set (projects s'). p_id p = pid \<longrightarrow> p_deletedAt p \<noteq> None) \<and>
      (\<forall>g \<in> set (goals s'). g_projectId g = pid \<longrightarrow> g_deletedAt g \<noteq> None) \<and>
      (\<forall>t \<in> set (tasks s').
          (\<exists>g \<in> set (goals s'). g_id g = t_goalId t \<and> g_projectId g = pid)
          \<longrightarrow> t_deletedAt t \<noteq> None)) \<and>
   (deleteProject pid s = Inl (e, s') \<longrightarrow>
      projects s' = projects s \<and> goals s' = goals s \<and> tasks s' = tasks s) \<and>
   (deleteGoal gid s = Inr s' \<longrightarrow>
      (\<exists>d1 u1 d2 u2.
        clock s \<le> d1 \<and> d1 \<le> u1 \<and> u1 \<le> d2 \<and> d2 \<le> u2 \<and>
        (ticks s = [] \<longrightarrow> d1 = clock s \<and> d2 = clock s) \<and>
        tasks s' =
          map (\<lambda>t. if t_goalId t = gid \<and> t_deletedAt t = None
                    then t\<lparr>t_deletedAt := Some d1, t_updatedAt := u1\<rparr> else t) (tasks s) \<and>
        goals s' =
          map (\<lambda>g. if g_id g = gid then g\<lparr>g_deletedAt := Some d2, g_updatedAt := u2\<rparr> else g)
            (goals s) \<and>
        projects s' = projects s) \<and>
      (\<forall>g \<in> set (goals s'). g_id g = gid \<longrightarrow> g_deletedAt g \<noteq> None) \<and>
      (\<forall>t \<in> set (tasks s'). t_goalId t = gid \<longrightarrow> t_deletedAt t \<noteq> None)) \<and>
   (deleteGoal gid s = Inl (e, s') \<longrightarrow>
      projects s' = projects s \<and> goals s' = goals s \<and> tasks s' = tasks s)"
proof -
  have p1: "(\<forall>p \<in> set (projects s'). p_id p = pid \<longrightarrow> p_deletedAt p \<noteq> None) \<and>
      (\<forall>g \<in> set (goals s'). g_projectId g = pid \<longrightarrow> g_deletedAt g \<noteq> None) \<and>
      (\<forall>t \<in> set (tasks s').
          (\<exists>g \<in> set (goals s'). g_id g = t_goalId t \<and> g_projectId g = pid)
          \<longrightarrow> t_deletedAt t \<noteq> None)"
    if a: "deleteProject pid s = Inr s'"
  proof -
    from a obtain d1 u1 d2 u2 d3 u3 where c:
      "tasks s' =
          map (\<lambda>t. if (\<exists>g \<in> set (goals s). g_id g = t_goalId t \<and> g_projectId g = pid) \<and>
                       t_deletedAt t = None
                    then t\<lparr>t_deletedAt := Some d1, t_updatedAt := u1\<rparr> else t) (tasks s)"
      "goals s' =
          map (\<lambda>g. if g_projectId g = pid \<and> g_deletedAt g = None
                    then g\<lparr>g_deletedAt := Some d2, g_updatedAt := u2\<rparr> else g) (goals s)"
      "projects s' =
          map (\<lambda>p. if p_id p = pid then p\<lparr>p_deletedAt := Some d3, p_updatedAt := u3\<rparr> else p)
            (projects s)"
      by (rule deleteProject_cases)
    have x: "\<forall>p \<in> set (projects s'). p_id p = pid \<longrightarrow> p_deletedAt p \<noteq> None"
      unfolding c(3) by (rule ball_map_ifI) simp_all
    have y: "\<forall>g \<in> set (goals s'). g_projectId g = pid \<longrightarrow> g_deletedAt g \<noteq> None"
      unfolding c(2) by (rule ball_map_ifI) simp_all
    have gi: "\<exists>g \<in> set (goals s). g_id g = g_id g' \<and> g_projectId g = pid"
      if g': "g' \<in> set (goals s')" "g_projectId g' = pid" for g'
    proof -
      from g'(1) have "g' \<in> (\<lambda>g. if g_projectId g = pid \<and> g_deletedAt g = None
               then g\<lparr>g_deletedAt := Some d2, g_updatedAt := u2\<rparr> else g) ` set (goals s)"
        unfolding c(2) by simp
      then obtain g0 where g0: "g0 \<in> set (goals s)"
        "g' = (if g_projectId g0 = pid \<and> g_deletedAt g0 = None
               then g0\<lparr>g_deletedAt := Some d2, g_updatedAt := u2\<rparr> else g0)"
        by (rule imageE)
      have "g_id g0 = g_id g' \<and> g_projectId g0 = pid"
        using g'(2) by (simp add: g0(2) split: if_splits)
      with g0(1) show ?thesis by (rule bexI[rotated])
    qed
    have z: "\<forall>t \<in> set (tasks s').
          (\<exists>g \<in> set (goals s'). g_id g = t_goalId t \<and> g_projectId g = pid)
          \<longrightarrow> t_deletedAt t \<noteq> None"
      unfolding c(1)
    proof (rule ball_map_ifI)
      fix t
      assume "t \<in> set (tasks s)"
        "(\<exists>g\<in>set (goals s). g_id g = t_goalId t \<and> g_projectId g = pid) \<and> t_deletedAt t = None"
      show "(\<exists>g\<in>set (goals s'). g_id g = t_goalId (t\<lparr>t_deletedAt := Some d1, t_updatedAt := u1\<rparr>)
               \<and> g_projectId g = pid)
            \<longrightarrow> t_deletedAt (t\<lparr>t_deletedAt := Some d1, t_updatedAt := u1\<rparr>) \<noteq> None"
        by simp
    next
      fix t
      assume n: "\<not> ((\<exists>g\<in>set (goals s). g_id g = t_goalId t \<and> g_projectId g = pid)
                 \<and> t_deletedAt t = None)"
      show "(\<exists>g\<in>set (goals s'). g_id g = t_goalId t \<and> g_projectId g = pid)
              \<longrightarrow> t_deletedAt t \<noteq> None"
      proof (rule impI)
        assume "\<exists>g\<in>set (goals s'). g_id g = t_goalId t \<and> g_projectId g = pid"
        then show "t_deletedAt t \<noteq> None"
        proof (rule bexE)
          fix g' assume m: "g' \<in> set (goals s')"
            and h: "g_id g' = t_goalId t \<and> g_projectId g' = pid"
          from gi[OF m] h have "\<exists>g \<in> set (goals s). g_id g = t_goalId t \<and> g_projectId g = pid"
            by simp
          with n show ?thesis by simp
        qed
      qed
    qed
    show ?thesis by (rule conjI[OF x conjI[OF y z]])
  qed
  have p2: "(\<forall>g \<in> set (goals s'). g_id g = gid \<longrightarrow> g_deletedAt g \<noteq> None) \<and>
      (\<forall>t \<in> set (tasks s'). t_goalId t = gid \<longrightarrow> t_deletedAt t \<noteq> None)"
    if a: "deleteGoal gid s = Inr s'"
  proof -
    from a obtain d1 u1 d2 u2 where c:
      "tasks s' =
          map (\<lambda>t. if t_goalId t = gid \<and> t_deletedAt t = None
                    then t\<lparr>t_deletedAt := Some d1, t_updatedAt := u1\<rparr> else t) (tasks s)"
      "goals s' =
          map (\<lambda>g. if g_id g = gid then g\<lparr>g_deletedAt := Some d2, g_updatedAt := u2\<rparr> else g)
            (goals s)"
      by (rule deleteGoal_cases)
    have x: "\<forall>g \<in> set (goals s'). g_id g = gid \<longrightarrow> g_deletedAt g \<noteq> None"
      unfolding c(2) by (rule ball_map_ifI) simp_all
    have y: "\<forall>t \<in> set (tasks s'). t_goalId t = gid \<longrightarrow> t_deletedAt t \<noteq> None"
      unfolding c(1) by (rule ball_map_ifI) simp_all
    show ?thesis by (rule conjI[OF x y])
  qed
  have A: "deleteProject pid s = Inr s' \<longrightarrow>
      (\<exists>d1 u1 d2 u2 d3 u3.
        clock s \<le> d1 \<and> d1 \<le> u1 \<and> u1 \<le> d2 \<and> d2 \<le> u2 \<and> u2 \<le> d3 \<and> d3 \<le> u3 \<and>
        (ticks s = [] \<longrightarrow> d1 = clock s \<and> d3 = clock s) \<and>
        tasks s' =
          map (\<lambda>t. if (\<exists>g \<in> set (goals s). g_id g = t_goalId t \<and> g_projectId g = pid) \<and>
                       t_deletedAt t = None
                    then t\<lparr>t_deletedAt := Some d1, t_updatedAt := u1\<rparr> else t) (tasks s) \<and>
        goals s' =
          map (\<lambda>g. if g_projectId g = pid \<and> g_deletedAt g = None
                    then g\<lparr>g_deletedAt := Some d2, g_updatedAt := u2\<rparr> else g) (goals s) \<and>
        projects s' =
          map (\<lambda>p. if p_id p = pid then p\<lparr>p_deletedAt := Some d3, p_updatedAt := u3\<rparr> else p)
            (projects s)) \<and>
      (\<forall>p \<in> set (projects s'). p_id p = pid \<longrightarrow> p_deletedAt p \<noteq> None) \<and>
      (\<forall>g \<in> set (goals s'). g_projectId g = pid \<longrightarrow> g_deletedAt g \<noteq> None) \<and>
      (\<forall>t \<in> set (tasks s').
          (\<exists>g \<in> set (goals s'). g_id g = t_goalId t \<and> g_projectId g = pid)
          \<longrightarrow> t_deletedAt t \<noteq> None)"
  proof
    assume a: "deleteProject pid s = Inr s'"
    show "(\<exists>d1 u1 d2 u2 d3 u3.
        clock s \<le> d1 \<and> d1 \<le> u1 \<and> u1 \<le> d2 \<and> d2 \<le> u2 \<and> u2 \<le> d3 \<and> d3 \<le> u3 \<and>
        (ticks s = [] \<longrightarrow> d1 = clock s \<and> d3 = clock s) \<and>
        tasks s' =
          map (\<lambda>t. if (\<exists>g \<in> set (goals s). g_id g = t_goalId t \<and> g_projectId g = pid) \<and>
                       t_deletedAt t = None
                    then t\<lparr>t_deletedAt := Some d1, t_updatedAt := u1\<rparr> else t) (tasks s) \<and>
        goals s' =
          map (\<lambda>g. if g_projectId g = pid \<and> g_deletedAt g = None
                    then g\<lparr>g_deletedAt := Some d2, g_updatedAt := u2\<rparr> else g) (goals s) \<and>
        projects s' =
          map (\<lambda>p. if p_id p = pid then p\<lparr>p_deletedAt := Some d3, p_updatedAt := u3\<rparr> else p)
            (projects s)) \<and>
      (\<forall>p \<in> set (projects s'). p_id p = pid \<longrightarrow> p_deletedAt p \<noteq> None) \<and>
      (\<forall>g \<in> set (goals s'). g_projectId g = pid \<longrightarrow> g_deletedAt g \<noteq> None) \<and>
      (\<forall>t \<in> set (tasks s').
          (\<exists>g \<in> set (goals s'). g_id g = t_goalId t \<and> g_projectId g = pid)
          \<longrightarrow> t_deletedAt t \<noteq> None)"
      by (rule conjI[OF deleteProject_Inr[OF a] p1[OF a]])
  qed
  have B: "deleteProject pid s = Inl (e, s') \<longrightarrow>
      projects s' = projects s \<and> goals s' = goals s \<and> tasks s' = tasks s"
    by (rule impI) (erule deleteProject_Inl)
  have C: "deleteGoal gid s = Inr s' \<longrightarrow>
      (\<exists>d1 u1 d2 u2.
        clock s \<le> d1 \<and> d1 \<le> u1 \<and> u1 \<le> d2 \<and> d2 \<le> u2 \<and>
        (ticks s = [] \<longrightarrow> d1 = clock s \<and> d2 = clock s) \<and>
        tasks s' =
          map (\<lambda>t. if t_goalId t = gid \<and> t_deletedAt t = None
                    then t\<lparr>t_deletedAt := Some d1, t_updatedAt := u1\<rparr> else t) (tasks s) \<and>
        goals s' =
          map (\<lambda>g. if g_id g = gid then g\<lparr>g_deletedAt := Some d2, g_updatedAt := u2\<rparr> else g)
            (goals s) \<and>
        projects s' = projects s) \<and>
      (\<forall>g \<in> set (goals s'). g_id g = gid \<longrightarrow> g_deletedAt g \<noteq> None) \<and>
      (\<forall>t \<in> set (tasks s'). t_goalId t = gid \<longrightarrow> t_deletedAt t \<noteq> None)"
  proof
    assume a: "deleteGoal gid s = Inr s'"
    show "(\<exists>d1 u1 d2 u2.
        clock s \<le> d1 \<and> d1 \<le> u1 \<and> u1 \<le> d2 \<and> d2 \<le> u2 \<and>
        (ticks s = [] \<longrightarrow> d1 = clock s \<and> d2 = clock s) \<and>
        tasks s' =
          map (\<lambda>t. if t_goalId t = gid \<and> t_deletedAt t = None
                    then t\<lparr>t_deletedAt := Some d1, t_updatedAt := u1\<rparr> else t) (tasks s) \<and>
        goals s' =
          map (\<lambda>g. if g_id g = gid then g\<lparr>g_deletedAt := Some d2, g_updatedAt := u2\<rparr> else g)
            (goals s) \<and>
        projects s' = projects s) \<and>
      (\<forall>g \<in> set (goals s'). g_id g = gid \<longrightarrow> g_deletedAt g \<noteq> None) \<and>
      (\<forall>t \<in> set (tasks s'). t_goalId t = gid \<longrightarrow> t_deletedAt t \<noteq> None)"
      by (rule conjI[OF deleteGoal_Inr[OF a] p2[OF a]])
  qed
  have D: "deleteGoal gid s = Inl (e, s') \<longrightarrow>
      projects s' = projects s \<and> goals s' = goals s \<and> tasks s' = tasks s"
    by (rule impI) (erule deleteGoal_Inl)
  show ?thesis
    by (rule conjI[OF A conjI[OF B conjI[OF C D]]])
qed

theorem soft_delete_cascade_witness:
  "(\<exists>s'. deleteProject ''p1'' demoStore = Inr s' \<and>
      (\<forall>p \<in> set (projects s'). p_id p = ''p1'' \<longrightarrow> p_deletedAt p \<noteq> None) \<and>
      (\<forall>g \<in> set (goals s'). g_projectId g = ''p1'' \<longrightarrow> g_deletedAt g \<noteq> None) \<and>
      (\<forall>t \<in> set (tasks s').
          (\<exists>g \<in> set (goals s'). g_id g = t_goalId t \<and> g_projectId g = ''p1'')
          \<longrightarrow> t_deletedAt t \<noteq> None)) \<and>
   (\<exists>e s'. deleteProject ''p1'' (demoStore\<lparr>writesUntilFailure := Some 1\<rparr>) = Inl (e, s') \<and>
      projects s' = projects demoStore \<and> goals s' = goals demoStore \<and>
      tasks s' = tasks demoStore) \<and>
   (\<exists>s'. deleteGoal ''g1'' demoStore = Inr s' \<and>
      (\<forall>g \<in> set (goals s'). g_id g = ''g1'' \<longrightarrow> g_deletedAt g \<noteq> None) \<and>
      (\<forall>t \<in> set (tasks s'). t_goalId t = ''g1'' \<longrightarrow> t_deletedAt t \<noteq> None)) \<and>
   (\<exists>e s'. deleteGoal ''g1'' (demoStore\<lparr>writesUntilFailure := Some 1\<rparr>) = Inl (e, s') \<and>
      projects s' = projects demoStore \<and> goals s' = goals demoStore \<and>
      tasks s' = tasks demoStore)"
proof -
  have "(case deleteProject ''p1'' demoStore of Inl e \<Rightarrow> False | Inr x \<Rightarrow> True)"
    by code_simp
  then obtain s1 where r1: "deleteProject ''p1'' demoStore = Inr s1"
    by (cases "deleteProject ''p1'' demoStore") simp_all
  have "(case deleteProject ''p1'' (demoStore\<lparr>writesUntilFailure := Some 1\<rparr>) of
           Inl e \<Rightarrow> True | Inr x \<Rightarrow> False)"
    by code_simp
  then obtain e2 s2 where
    r2: "deleteProject ''p1'' (demoStore\<lparr>writesUntilFailure := Some 1\<rparr>) = Inl (e2, s2)"
    by (cases "deleteProject ''p1'' (demoStore\<lparr>writesUntilFailure := Some 1\<rparr>)") auto
  have "(case deleteGoal ''g1'' demoStore of Inl e \<Rightarrow> False | Inr x \<Rightarrow> True)"
    by code_simp
  then obtain s3 where r3: "deleteGoal ''g1'' demoStore = Inr s3"
    by (cases "deleteGoal ''g1'' demoStore") simp_all
  have "(case deleteGoal ''g1'' (demoStore\<lparr>writesUntilFailure := Some 1\<rparr>) of
           Inl e \<Rightarrow> True | Inr x \<Rightarrow> False)"
    by code_simp
  then obtain e4 s4 where
    r4: "deleteGoal ''g1'' (demoStore\<lparr>writesUntilFailure := Some 1\<rparr>) = Inl (e4, s4)"
    by (cases "deleteGoal ''g1'' (demoStore\<lparr>writesUntilFailure := Some 1\<rparr>)") auto
  have t: "projects (demoStore\<lparr>writesUntilFailure := Some 1\<rparr>) = projects demoStore \<and>
      goals (demoStore\<lparr>writesUntilFailure := Some 1\<rparr>) = goals demoStore \<and>
      tasks (demoStore\<lparr>writesUntilFailure := Some 1\<rparr>) = tasks demoStore"
    by simp
  note a = soft_delete_cascade[where pid = "''p1''" and s = demoStore and s' = s1,
      THEN conjunct1, rule_format, OF r1]
  note b = soft_delete_cascade[where pid = "''p1''"
      and s = "demoStore\<lparr>writesUntilFailure := Some 1\<rparr>" and s' = s2 and e = e2,
      THEN conjunct2, THEN conjunct1, rule_format, OF r2]
  note c = soft_delete_cascade[where gid = "''g1''" and s = demoStore and s' = s3,
      THEN conjunct2, THEN conjunct2, THEN conjunct1, rule_format, OF r3]
  note d = soft_delete_cascade[where gid = "''g1''"
      and s = "demoStore\<lparr>writesUntilFailure := Some 1\<rparr>" and s' = s4 and e = e4,
      THEN conjunct2, THEN conjunct2, THEN conjunct2, rule_format, OF r4]
  have A: "\<exists>s'. deleteProject ''p1'' demoStore = Inr s' \<and>
      (\<forall>p \<in> set (projects s'). p_id p = ''p1'' \<longrightarrow> p_deletedAt p \<noteq> None) \<and>
      (\<forall>g \<in> set (goals s'). g_projectId g = ''p1'' \<longrightarrow> g_deletedAt g \<noteq> None) \<and>
      (\<forall>t \<in> set (tasks s').
          (\<exists>g \<in> set (goals s'). g_id g = t_goalId t \<and> g_projectId g = ''p1'')
          \<longrightarrow> t_deletedAt t \<noteq> None)"
    using r1 a by (intro exI[of _ s1]) simp
  have B: "\<exists>e s'. deleteProject ''p1'' (demoStore\<lparr>writesUntilFailure := Some 1\<rparr>) = Inl (e, s') \<and>
      projects s' = projects demoStore \<and> goals s' = goals demoStore \<and>
      tasks s' = tasks demoStore"
    using r2 b t by (intro exI[of _ e2] exI[of _ s2]) simp
  have C: "\<exists>s'. deleteGoal ''g1'' demoStore = Inr s' \<and>
      (\<forall>g \<in> set (goals s'). g_id g = ''g1'' \<longrightarrow> g_deletedAt g \<noteq> None) \<and>
      (\<forall>t \<in> set (tasks s'). t_goalId t = ''g1'' \<longrightarrow> t_deletedAt t \<noteq> None)"
    using r3 c by (intro exI[of _ s3]) simp
  have D: "\<exists>e s'. deleteGoal ''g1'' (demoStore\<lparr>writesUntilFailure := Some 1\<rparr>) = Inl (e, s') \<and>
      projects s' = projects demoStore \<and> goals s' = goals demoStore \<and>
      tasks s' = tasks demoStore"
    using r4 d t by (intro exI[of _ e4] exI[of _ s4]) simp
  show ?thesis by (rule conjI[OF A conjI[OF B conjI[OF C D]]])
qed

section \<open>C9: the order of the task lists\<close>

text \<open>
  What the two reads return. \<open>getAllTasks\<close> returns the live tasks that match the query,
  those marked for today first, then the open ones before the completed ones, then the
  newest first. \<open>getTodaysTasks\<close> returns the live tasks marked for today, the open ones
  first, then by the urgency column descending, then the newest first. The urgency column
  is text, so its descending order is that of the tokens: MIDDEN, LAAG, HOOG.
\<close>

lemma task_lists_ordered:
  "sorted_wrt (\<lambda>a b.
       (t_todaysFocus a \<and> \<not> t_todaysFocus b) \<or>
       (t_todaysFocus a = t_todaysFocus b \<and>
          ((\<not> t_completed a \<and> t_completed b) \<or>
           (t_completed a = t_completed b \<and> t_createdAt b \<le> t_createdAt a))))
     (getAllTasks q s) \<and>
   set (getAllTasks q s) = {t \<in> set (tasks s). taskMatches q t} \<and>
   sorted_wrt (\<lambda>a b.
       (\<not> t_completed a \<and> t_completed b) \<or>
       (t_completed a = t_completed b \<and>
          (urgencyText (t_urgency b) < urgencyText (t_urgency a) \<or>
           (t_urgency a = t_urgency b \<and> t_createdAt b \<le> t_createdAt a))))
     (getTodaysTasks s) \<and>
   set (getTodaysTasks s) = {t \<in> set (tasks s). t_deletedAt t = None \<and> t_todaysFocus t} \<and>
   urgencyText HOOG < urgencyText LAAG \<and> urgencyText LAAG < urgencyText MIDDEN"
proof -
  have w1: "weakOrder (sortsBefore taskListOrder)"
    by (rule weakOrder_sortsBefore) (simp add: taskListOrder_def weakOrder_byKey)
  have w2: "weakOrder (sortsBefore todaysOrder)"
    by (rule weakOrder_sortsBefore) (simp add: todaysOrder_def weakOrder_byKey)
  have r1: "\<not> sortsBefore taskListOrder b a \<Longrightarrow>
       (t_todaysFocus a \<and> \<not> t_todaysFocus b) \<or>
       (t_todaysFocus a = t_todaysFocus b \<and>
          ((\<not> t_completed a \<and> t_completed b) \<or>
           (t_completed a = t_completed b \<and> t_createdAt b \<le> t_createdAt a)))" for a b
    by (auto simp: taskListOrder_def byKey_def)
  have r2: "(\<not> t_completed a \<and> t_completed b) \<or>
       (t_completed a = t_completed b \<and>
          (urgencyText (t_urgency b) < urgencyText (t_urgency a) \<or>
           (t_urgency a = t_urgency b \<and> t_createdAt b \<le> t_createdAt a)))"
    if h: "\<not> sortsBefore todaysOrder b a" for a b
  proof -
    have eq: "t_urgency a = t_urgency b"
      if "\<not> urgencyText (t_urgency b) < urgencyText (t_urgency a)"
         "\<not> urgencyText (t_urgency a) < urgencyText (t_urgency b)"
      using that urgencyText_inj[of "t_urgency a" "t_urgency b"] by auto
    from h have "\<not> (t_completed b < t_completed a) \<and>
        (t_completed a < t_completed b \<or>
          \<not> (urgencyText (t_urgency a) < urgencyText (t_urgency b)) \<and>
          (urgencyText (t_urgency b) < urgencyText (t_urgency a) \<or>
             \<not> (t_createdAt a < t_createdAt b)))"
      by (simp add: todaysOrder_def byKey_def)
    then show ?thesis using eq by (auto simp: less_bool_def)
  qed
  have s1: "sorted_wrt (\<lambda>a b. \<not> sortsBefore taskListOrder b a) (getAllTasks q s)"
    unfolding getAllTasks_def by (rule sorted_orderBy[OF w1])
  have s2: "sorted_wrt (\<lambda>a b. \<not> sortsBefore todaysOrder b a) (getTodaysTasks s)"
    unfolding getTodaysTasks_def by (rule sorted_orderBy[OF w2])
  have o1: "sorted_wrt (\<lambda>a b.
       (t_todaysFocus a \<and> \<not> t_todaysFocus b) \<or>
       (t_todaysFocus a = t_todaysFocus b \<and>
          ((\<not> t_completed a \<and> t_completed b) \<or>
           (t_completed a = t_completed b \<and> t_createdAt b \<le> t_createdAt a))))
     (getAllTasks q s)"
    by (rule sorted_wrt_mono_rel[OF _ s1]) (rule r1)
  have o2: "sorted_wrt (\<lambda>a b.
       (\<not> t_completed a \<and> t_completed b) \<or>
       (t_completed a = t_completed b \<and>
          (urgencyText (t_urgency b) < urgencyText (t_urgency a) \<or>
           (t_urgency a = t_urgency b \<and> t_createdAt b \<le> t_createdAt a))))
     (getTodaysTasks s)"
    by (rule sorted_wrt_mono_rel[OF _ s2]) (rule r2)
  have m1: "set (getAllTasks q s) = {t \<in> set (tasks s). taskMatches q t}"
    by (auto simp: getAllTasks_def set_orderBy)
  have m2: "set (getTodaysTasks s) = {t \<in> set (tasks s). t_deletedAt t = None \<and> t_todaysFocus t}"
    by (auto simp: getTodaysTasks_def set_orderBy)
  have u: "urgencyText HOOG < urgencyText LAAG \<and> urgencyText LAAG < urgencyText MIDDEN"
    by simp
  show ?thesis using o1 m1 o2 m2 u by blast
qed

lemma task_lists_ordered_example:
  "map t_id (getAllTasks anyTask focusStore) = [''t3'', ''t4'', ''t2'', ''t1''] \<and>
   map t_id (getTodaysTasks focusStore) = [''t4'', ''t3'', ''t2''] \<and>
   sorted_wrt (\<lambda>a b.
       (\<not> t_completed a \<and> t_completed b) \<or>
       (t_completed a = t_completed b \<and>
          (urgencyText (t_urgency b) < urgencyText (t_urgency a) \<or>
           (t_urgency a = t_urgency b \<and> t_createdAt b \<le> t_createdAt a))))
     (getTodaysTasks focusStore)"
proof -
  have a: "map t_id (getAllTasks anyTask focusStore) = [''t3'', ''t4'', ''t2'', ''t1'']"
    by code_simp
  have b: "map t_id (getTodaysTasks focusStore) = [''t4'', ''t3'', ''t2'']"
    by code_simp
  from task_lists_ordered[of anyTask focusStore] a b show ?thesis by simp
qed

text \<open>
  C9 says that the today's-focus listing orders by completed ascending, then urgency
  descending, then createdAt descending. \<open>getTodaysTasks\<close> passes \<open>urgency: 'desc'\<close> to
  the store, where the column is text: of three open tasks marked for today, the one of
  medium urgency comes first, the one of low urgency second and the one of high urgency
  last, so the list is not in descending order of urgency.
\<close>

theorem todays_list_high_urgency_last:
  "map (\<lambda>t. (t_id t, t_urgency t)) (getTodaysTasks urgentStore) =
     [(''t4'', MIDDEN), (''t3'', LAAG), (''t2'', HOOG)] \<and>
   \<not> sorted_wrt (\<lambda>a b. urgencyLevel (t_urgency b) \<le> urgencyLevel (t_urgency a))
         (getTodaysTasks urgentStore)"
  by code_simp

section \<open>C10: the project lookup of the reconciler finds soft-deleted projects\<close>

text \<open>
  C10: \<open>findUnique\<close> by id has no \<open>deletedAt\<close> filter, so a client project whose id is
  that of a soft-deleted project is found: its name is overwritten when it differs
  (counted as an update), and a goal without an id is created beneath it with its tasks
  (counted as created), while the project stays deleted.
\<close>

theorem sync_finds_soft_deleted_project:
  assumes found: "find (\<lambda>p. p_id p = pid) (projects s) = Some p"
      and deleted: "p_deletedAt p = Some d"
      and ok: "writesUntilFailure s = None"
      and cid: "cp_id cp = Some pid" "pid \<noteq> []"
      and name: "p_name p \<noteq> cp_name cp"
      and gs: "cp_goals cp = [cg]" "presentId (cg_id cg) = None"
  shows "project_findUnique pid s = Some (includeGoals s p) \<and>
     (\<exists>s' r'. syncProject cp (s, r) = Inr (s', r') \<and>
        updated r' = (updated r)\<lparr>n_projects := n_projects (updated r) + 1\<rparr> \<and>
        created r' = (created r)\<lparr>n_goals := n_goals (created r) + 1,
                                n_tasks := n_tasks (created r) + length (cg_tasks cg)\<rparr> \<and>
        map (\<lambda>q. (p_id q, p_name q, p_deletedAt q)) (projects s') =
          map (\<lambda>q. (p_id q, if p_id q = pid then cp_name cp else p_name q, p_deletedAt q))
            (projects s) \<and>
        (\<exists>g ts. goals s' = goals s @ [g] \<and> g_projectId g = pid \<and> g_name g = cg_name cg \<and>
           g_deletedAt g = None \<and> tasks s' = tasks s @ ts \<and>
           map t_goalId ts = replicate (length (cg_tasks cg)) (g_id g) \<and>
           map (\<lambda>r. (t_name r, t_completed r, t_urgency r, t_todaysFocus r, t_completedAt r)) ts
             = map taskDataOf (cg_tasks cg)))"
proof -
  have fu: "project_findUnique pid s = Some (includeGoals s p)"
    using found by (simp add: project_findUnique_def)
  define s1 where "s1 = (snd (now s))\<lparr>projects :=
        map (\<lambda>q. if p_id q = pid then (q\<lparr>p_name := cp_name cp\<rparr>)\<lparr>p_updatedAt := fst (now s)\<rparr> else q)
          (projects s)\<rparr>"
  have up: "project_update pid (\<lambda>p. p\<lparr>p_name := cp_name cp\<rparr>) s = Inr s1"
    unfolding s1_def using ok found by (rule project_update_ok)
  have ok1: "writesUntilFailure s1 = None" using ok by (simp add: s1_def)
  have "find (\<lambda>q. p_id q = pid) (projects s1) \<noteq> None"
    using found by (simp add: s1_def find_map_pres)
  then obtain q where found1: "find (\<lambda>q. p_id q = pid) (projects s1) = Some q" by auto
  define s2 where "s2 = (snd (now s1))\<lparr>goals := goals s1 @ [mkGoal (cuid (nextId s1)) pid (fst (now s1)) (cg_name cg)],
            tasks := tasks s1 @ mkTasks (Suc (nextId s1)) (cuid (nextId s1)) (fst (now s1)) (map taskDataOf (cg_tasks cg)),
            nextId := Suc (nextId s1) + length (map taskDataOf (cg_tasks cg))\<rparr>"
  have cr: "goal_create pid (cg_name cg) (map taskDataOf (cg_tasks cg)) s1 = Inr s2"
    unfolding s2_def using ok1 found1 by (rule goal_create_ok)
  let ?r1 = "r\<lparr>updated := (updated r)\<lparr>n_projects := n_projects (updated r) + 1\<rparr>\<rparr>"
  let ?r2 = "?r1\<lparr>created := (created ?r1)\<lparr>n_goals := n_goals (created ?r1) + 1,
                 n_tasks := n_tasks (created ?r1) + length (cg_tasks cg)\<rparr>\<rparr>"
  have sg: "syncGoal pid (snd (includeGoals s p)) cg (s1, ?r1) = Inr (s2, ?r2)"
    using gs(2) cr by (simp add: syncGoal_def)
  have run: "syncProject cp (s, r) = Inr (s2, ?r2)"
    using cid fu name up gs(1) sg by (simp add: syncProject_def includeGoals_def)
  have pr: "map (\<lambda>q. (p_id q, p_name q, p_deletedAt q)) (projects s2) =
          map (\<lambda>q. (p_id q, if p_id q = pid then cp_name cp else p_name q, p_deletedAt q))
            (projects s)"
    by (simp add: s2_def s1_def)
  have gl: "goals s2 = goals s @ [mkGoal (cuid (nextId s1)) pid (fst (now s1)) (cg_name cg)]"
    by (simp add: s2_def s1_def)
  have tk: "tasks s2 = tasks s @ mkTasks (Suc (nextId s1)) (cuid (nextId s1)) (fst (now s1)) (map taskDataOf (cg_tasks cg))"
    by (simp add: s2_def s1_def)
  show ?thesis
    apply (rule conjI[OF fu])
    apply (rule exI[of _ s2], rule exI[of _ ?r2])
    apply (intro conjI)
        apply (rule run)
       apply simp
      apply simp
     apply (rule pr)
    apply (rule exI[of _ "mkGoal (cuid (nextId s1)) pid (fst (now s1)) (cg_name cg)"])
    apply (rule exI[of _ "mkTasks (Suc (nextId s1)) (cuid (nextId s1)) (fst (now s1)) (map taskDataOf (cg_tasks cg))"])
    apply (simp add: gl tk mkTasks_goalId mkTasks_data)
    apply (simp add: mkGoal_def)
    done
qed

theorem sync_finds_soft_deleted_project_witness:
  "project_findUnique ''p2'' demoStore = Some (includeGoals demoStore oldProject) \<and>
     (\<exists>s' r'. syncProject revivedProject (demoStore, noResults) = Inr (s', r') \<and>
        updated r' = (updated noResults)\<lparr>n_projects := n_projects (updated noResults) + 1\<rparr> \<and>
        created r' = (created noResults)\<lparr>n_goals := n_goals (created noResults) + 1,
                                n_tasks := n_tasks (created noResults) + length (cg_tasks newGoal)\<rparr> \<and>
        map (\<lambda>q. (p_id q, p_name q, p_deletedAt q)) (projects s') =
          map (\<lambda>q. (p_id q, if p_id q = ''p2'' then cp_name revivedProject else p_name q,
                     p_deletedAt q))
            (projects demoStore) \<and>
        (\<exists>g ts. goals s' = goals demoStore @ [g] \<and> g_projectId g = ''p2'' \<and>
           g_name g = cg_name newGoal \<and>
           g_deletedAt g = None \<and> tasks s' = tasks demoStore @ ts \<and>
           map t_goalId ts = replicate (length (cg_tasks newGoal)) (g_id g) \<and>
           map (\<lambda>r. (t_name r, t_completed r, t_urgency r, t_todaysFocus r, t_completedAt r)) ts
             = map taskDataOf (cg_tasks newGoal)))"
proof -
  have h1: "find (\<lambda>p. p_id p = ''p2'') (projects demoStore) = Some oldProject"
    by (simp add: demoStore_def workProject_def oldProject_def)
  have h2: "p_deletedAt oldProject = Some 30" by (simp add: oldProject_def)
  have h3: "writesUntilFailure demoStore = None" by (simp add: demoStore_def)
  have h4: "cp_id revivedProject = Some ''p2''" "''p2'' \<noteq> []"
    by (simp_all add: revivedProject_def)
  have h5: "p_name oldProject \<noteq> cp_name revivedProject"
    by (simp add: oldProject_def revivedProject_def)
  have h6: "cp_goals revivedProject = [newGoal]" "presentId (cg_id newGoal) = None"
    by (simp_all add: revivedProject_def newGoal_def)
  show ?thesis
    by (rule sync_finds_soft_deleted_project[OF h1 h2 h3 h4 h5 h6])
qed

section \<open>C2: the completion timestamp on the update paths\<close>

text \<open>
  C2 says that after any update path, the CRUD task update or the reconciliation of an
  id-matched task, \<open>completedAt\<close> is set exactly when \<open>completed\<close> is true. The reconciler
  writes the client's \<open>completed\<close> and \<open>completedAt\<close> as they come: a client that ticks
  the task of \<open>demoStore\<close> off and sends no \<open>completedAt\<close> leaves it completed with no
  timestamp. \<open>updateTask\<close>, for the same task ticked off, stamps the reading of the clock.
\<close>

theorem sync_completed_without_timestamp:
  "(case syncData \<lparr>req_projects = [knownProject ''Work'' [doneTask]], lastSyncedAt = None\<rparr>
           demoStore of
      Inl e \<Rightarrow> False
    | Inr (resp, s') \<Rightarrow>
        map (\<lambda>t. (t_id t, t_completed t, t_completedAt t)) (tasks s') = [(''t1'', True, None)] \<and>
        updated (syncResults resp) = \<lparr>n_projects = 0, n_goals = 0, n_tasks = 1\<rparr>) \<and>
   (case updateTask ''t1'' completePatch demoStore of
      Inl e \<Rightarrow> False
    | Inr s' \<Rightarrow>
        map (\<lambda>t. (t_id t, t_completed t, t_completedAt t)) (tasks s') =
          [(''t1'', True, Some 1001)])"
  by code_simp

text \<open>
  The two paths in general. \<open>updateTask\<close> keeps the invariant: when every task of the
  store has a \<open>completedAt\<close> exactly if it is completed (and ids are unique, as the
  primary key makes them), the same holds after the update. The reconciler stores what
  the client sent: after the update of an id-matched task the row has the client's
  \<open>completed\<close> and the client's \<open>completedAt\<close>, whether or not they agree.
\<close>

lemma completion_stamp_update_paths:
  "(distinct (map t_id (tasks s)) \<and>
    (\<forall>t \<in> set (tasks s). (t_completedAt t \<noteq> None) = t_completed t) \<and>
    updateTask tid d s = Inr s'
      \<longrightarrow> (\<forall>t \<in> set (tasks s'). (t_completedAt t \<noteq> None) = t_completed t)) \<and>
   (presentId (ct_id ct) = Some tid \<and> find (\<lambda>t. t_id t = tid) serverTasks = Some serverTask \<and>
    syncTask gid serverTasks ct (s, r) = Inr (s'', r')
      \<longrightarrow> (\<exists>t \<in> set (tasks s''). t_id t = tid) \<and>
          (\<forall>t \<in> set (tasks s''). t_id t = tid \<longrightarrow>
             t_completed t = ct_completed ct \<and> t_completedAt t = ct_completedAt ct))"
proof (rule conjI; rule impI)
  assume a: "distinct (map t_id (tasks s)) \<and>
    (\<forall>t \<in> set (tasks s). (t_completedAt t \<noteq> None) = t_completed t) \<and>
    updateTask tid d s = Inr s'"
  then have dist: "distinct (map t_id (tasks s))"
    and inv: "\<And>t. t \<in> set (tasks s) \<Longrightarrow> (t_completedAt t \<noteq> None) = t_completed t"
    and run: "updateTask tid d s = Inr s'" by simp_all
  from run obtain e stamp s1 where
    e: "find (\<lambda>t. t_id t = tid \<and> t_deletedAt t = None) (tasks s) = Some e" and
    c: "completionStamp d e s = (stamp, s1)" and
    u: "task_update tid (\<lambda>t. (case stamp of None \<Rightarrow> applyPatch d t
                               | Some v \<Rightarrow> (applyPatch d t)\<lparr>t_completedAt := v\<rparr>)) s1 = Inr s'"
    by (rule updateTask_cases)
  from find_SomeD[OF e] have e_in: "e \<in> set (tasks s)" and e_id: "t_id e = tid" by simp_all
  from task_update_Inr[OF u] obtain v where
    t': "tasks s' = map (\<lambda>r. if t_id r = tid
            then (case stamp of None \<Rightarrow> applyPatch d r
                  | Some v \<Rightarrow> (applyPatch d r)\<lparr>t_completedAt := v\<rparr>)\<lparr>t_updatedAt := v\<rparr>
            else r) (tasks s1)"
    by blast
  have ts1: "tasks s1 = tasks s" using completionStamp_tables[OF c] by simp
  show "\<forall>t \<in> set (tasks s'). (t_completedAt t \<noteq> None) = t_completed t"
    unfolding t' ts1
  proof (rule ball_map_ifI)
    fix x assume x: "x \<in> set (tasks s)" "t_id x = tid"
    have xe: "x = e" using dist x(1) e_in by (rule distinct_map_eq) (simp add: x(2) e_id)
    from completionStamp_keeps[OF c inv[OF e_in]]
    show "(t_completedAt ((case stamp of None \<Rightarrow> applyPatch d x
                  | Some v \<Rightarrow> (applyPatch d x)\<lparr>t_completedAt := v\<rparr>)\<lparr>t_updatedAt := v\<rparr>) \<noteq> None)
        = t_completed ((case stamp of None \<Rightarrow> applyPatch d x
                  | Some v \<Rightarrow> (applyPatch d x)\<lparr>t_completedAt := v\<rparr>)\<lparr>t_updatedAt := v\<rparr>)"
      unfolding xe by simp
  next
    fix x assume "x \<in> set (tasks s)"
    then show "(t_completedAt x \<noteq> None) = t_completed x" by (rule inv)
  qed
next
  assume a: "presentId (ct_id ct) = Some tid \<and> find (\<lambda>t. t_id t = tid) serverTasks = Some serverTask \<and>
    syncTask gid serverTasks ct (s, r) = Inr (s'', r')"
  then have u: "task_update tid
           (\<lambda>t. t\<lparr>t_name := ct_name ct, t_completed := ct_completed ct,
                  t_urgency := ct_urgency ct, t_todaysFocus := ct_todaysFocus ct,
                  t_completedAt := ct_completedAt ct\<rparr>) s = Inr s''"
    using syncTask_update_cases[of ct tid serverTasks serverTask gid s r s'' r'] by simp
  from task_update_Inr[OF u] obtain v where
    t': "tasks s'' = map (\<lambda>x. if t_id x = tid
            then (x\<lparr>t_name := ct_name ct, t_completed := ct_completed ct,
                  t_urgency := ct_urgency ct, t_todaysFocus := ct_todaysFocus ct,
                  t_completedAt := ct_completedAt ct\<rparr>)\<lparr>t_updatedAt := v\<rparr>
            else x) (tasks s)"
    and f: "find (\<lambda>t. t_id t = tid) (tasks s) \<noteq> None"
    by blast
  from f obtain x0 where "find (\<lambda>t. t_id t = tid) (tasks s) = Some x0" by (cases "find (\<lambda>t. t_id t = tid) (tasks s)") simp_all
  from find_SomeD[OF this] have x0: "x0 \<in> set (tasks s)" "t_id x0 = tid" by simp_all
  have ex: "\<exists>t \<in> set (tasks s''). t_id t = tid"
  proof (rule bexI)
    let ?y = "(x0\<lparr>t_name := ct_name ct, t_completed := ct_completed ct,
                  t_urgency := ct_urgency ct, t_todaysFocus := ct_todaysFocus ct,
                  t_completedAt := ct_completedAt ct\<rparr>)\<lparr>t_updatedAt := v\<rparr>"
    show "t_id ?y = tid" using x0(2) by simp
    have "?y = (\<lambda>x. if t_id x = tid
            then (x\<lparr>t_name := ct_name ct, t_completed := ct_completed ct,
                  t_urgency := ct_urgency ct, t_todaysFocus := ct_todaysFocus ct,
                  t_completedAt := ct_completedAt ct\<rparr>)\<lparr>t_updatedAt := v\<rparr>
            else x) x0" using x0(2) by simp
    then show "?y \<in> set (tasks s'')" unfolding t' using x0(1) by (simp only: set_map image_eqI)
  qed
  have al: "\<forall>t \<in> set (tasks s''). t_id t = tid \<longrightarrow>
             t_completed t = ct_completed ct \<and> t_completedAt t = ct_completedAt ct"
    unfolding t' by (rule ball_map_ifI) simp_all
  show "(\<exists>t \<in> set (tasks s''). t_id t = tid) \<and>
          (\<forall>t \<in> set (tasks s''). t_id t = tid \<longrightarrow>
             t_completed t = ct_completed ct \<and> t_completedAt t = ct_completedAt ct)"
    by (rule conjI[OF ex al])
qed

lemma completion_stamp_update_paths_example:
  "(\<exists>s'. updateTask ''t1'' completePatch demoStore = Inr s' \<and>
      (\<forall>t \<in> set (tasks s'). (t_completedAt t \<noteq> None) = t_completed t) \<and>
      map t_completed (tasks s') = [True]) \<and>
   (\<exists>s'' r'. syncTask ''g1'' [writeTask] doneTask (demoStore, noResults) = Inr (s'', r') \<and>
      (\<exists>t \<in> set (tasks s''). t_id t = ''t1'') \<and>
      (\<forall>t \<in> set (tasks s''). t_id t = ''t1'' \<longrightarrow>
         t_completed t = ct_completed doneTask \<and> t_completedAt t = ct_completedAt doneTask))"
proof -
  have "(case updateTask ''t1'' completePatch demoStore of
           Inl e \<Rightarrow> False | Inr x \<Rightarrow> map t_completed (tasks x) = [True])"
    by code_simp
  then obtain s1 where r1: "updateTask ''t1'' completePatch demoStore = Inr s1"
    and v1: "map t_completed (tasks s1) = [True]"
    by (cases "updateTask ''t1'' completePatch demoStore") simp_all
  have d: "distinct (map t_id (tasks demoStore))" by (simp add: demoStore_def)
  have i: "\<forall>t \<in> set (tasks demoStore). (t_completedAt t \<noteq> None) = t_completed t"
    by (simp add: demoStore_def writeTask_def)
  note a = completion_stamp_update_paths[where s = demoStore and tid = "''t1''"
      and d = completePatch and s' = s1, THEN conjunct1, rule_format, OF conjI[OF d conjI[OF i r1]]]
  have "(case syncTask ''g1'' [writeTask] doneTask (demoStore, noResults) of
           Inl e \<Rightarrow> False | Inr x \<Rightarrow> True)"
    by code_simp
  then obtain s2 r2 where r2: "syncTask ''g1'' [writeTask] doneTask (demoStore, noResults) = Inr (s2, r2)"
    by (cases "syncTask ''g1'' [writeTask] doneTask (demoStore, noResults)") auto
  have p: "presentId (ct_id doneTask) = Some ''t1''" by (simp add: doneTask_def)
  have f: "find (\<lambda>t. t_id t = ''t1'') [writeTask] = Some writeTask" by (simp add: writeTask_def)
  note b = completion_stamp_update_paths[where s = demoStore and tid = "''t1''"
      and ct = doneTask and serverTasks = "[writeTask]" and serverTask = writeTask and gid = "''g1''"
      and r = noResults and s'' = s2 and r' = r2,
      THEN conjunct2, rule_format, OF conjI[OF p conjI[OF f r2]]]
  have A: "\<exists>s'. updateTask ''t1'' completePatch demoStore = Inr s' \<and>
      (\<forall>t \<in> set (tasks s'). (t_completedAt t \<noteq> None) = t_completed t) \<and>
      map t_completed (tasks s') = [True]"
    using r1 a v1 by (intro exI[of _ s1]) simp
  have B: "\<exists>s'' r'. syncTask ''g1'' [writeTask] doneTask (demoStore, noResults) = Inr (s'', r') \<and>
      (\<exists>t \<in> set (tasks s''). t_id t = ''t1'') \<and>
      (\<forall>t \<in> set (tasks s''). t_id t = ''t1'' \<longrightarrow>
         t_completed t = ct_completed doneTask \<and> t_completedAt t = ct_completedAt doneTask)"
    using r2 b by (intro exI[of _ s2] exI[of _ r2]) simp
  show ?thesis by (rule conjI[OF A B])
qed

section \<open>C4: a client project without an id is created with its subtree\<close>

text \<open>
  C4: for a client project with no id (absent, or the empty string) on a store that does
  not fail, the reconciler adds exactly one project row, one goal row for each nested
  goal and one task row for each nested task, whatever ids the nested goals and tasks
  carry; the new goals belong to the new project, and the new tasks of each new goal
  are, in order, the client's tasks of that goal. The created counters grow by 1, by the
  number of goals and by the number of tasks; the updated counters do not change. When
  no row of the store refers to an identifier still to be handed out, reading the new
  project back gives that subtree.
\<close>

theorem sync_creates_project_without_id:
  assumes noid: "presentId (cp_id cp) = None" and ok: "writesUntilFailure s = None"
  shows "\<exists>s' r' p gs ts.
     syncProject cp (s, r) = Inr (s', r') \<and>
     updated r' = updated r \<and>
     created r' =
       \<lparr>n_projects = n_projects (created r) + 1,
        n_goals = n_goals (created r) + length (cp_goals cp),
        n_tasks = n_tasks (created r) + sum_list (map (\<lambda>g. length (cg_tasks g)) (cp_goals cp))\<rparr> \<and>
     projects s' = projects s @ [p] \<and> p_id p = cuid (nextId s) \<and> p_name p = cp_name cp \<and>
     p_deletedAt p = None \<and>
     goals s' = goals s @ gs \<and> length gs = length (cp_goals cp) \<and>
     (\<forall>g \<in> set gs. g_projectId g = p_id p \<and> g_deletedAt g = None) \<and>
     tasks s' = tasks s @ ts \<and>
     length ts = sum_list (map (\<lambda>g. length (cg_tasks g)) (cp_goals cp)) \<and>
     (\<forall>x \<in> set ts. t_deletedAt x = None) \<and>
     map (\<lambda>g. (g_name g,
            map (\<lambda>x. (t_name x, t_completed x, t_urgency x, t_todaysFocus x, t_completedAt x))
              (filter (\<lambda>x. t_goalId x = g_id g) ts))) gs
       = map goalDataOf (cp_goals cp) \<and>
     ((\<forall>j\<ge>nextId s. (\<forall>q \<in> set (projects s). p_id q \<noteq> cuid j) \<and>
                     (\<forall>g \<in> set (goals s). g_projectId g \<noteq> cuid j) \<and>
                     (\<forall>x \<in> set (tasks s). t_goalId x \<noteq> cuid j))
       \<longrightarrow> project_findUnique (p_id p) s' =
             Some (p, map (\<lambda>g. (g, filter (\<lambda>x. t_goalId x = g_id g) ts)) gs))"
proof -
  let ?t = "fst (now s)"
  let ?pid = "cuid (nextId s)"
  let ?gds = "map goalDataOf (cp_goals cp)"
  let ?p = "mkProject ?pid ?t (cp_name cp)"
  let ?gs = "fst (mkGoals (Suc (nextId s)) ?pid ?t ?gds)"
  let ?ts = "snd (mkGoals (Suc (nextId s)) ?pid ?t ?gds)"
  let ?s' = "(snd (now s))\<lparr>projects := projects s @ [?p], goals := goals s @ ?gs,
            tasks := tasks s @ ?ts, nextId := Suc (nextId s) + subtreeSize ?gds\<rparr>"
  let ?n = "sum_list (map (\<lambda>g. length (cg_tasks g)) (cp_goals cp))"
  let ?r' = "r\<lparr>created := (created r)
                             \<lparr>n_projects := n_projects (created r) + 1,
                              n_goals := n_goals (created r) + length (cp_goals cp),
                              n_tasks := n_tasks (created r) +
                                foldl (\<lambda>sum g. sum + length (cg_tasks g)) 0 (cp_goals cp)\<rparr>\<rparr>"
  have cr: "project_create (cp_name cp) ?gds s = Inr ?s'"
    using ok by (rule project_create_ok)
  have run: "syncProject cp (s, r) = Inr (?s', ?r')"
    using noid cr by (simp add: syncProject_def)
  have u: "updated ?r' = updated r" by simp
  have c: "created ?r' =
       \<lparr>n_projects = n_projects (created r) + 1,
        n_goals = n_goals (created r) + length (cp_goals cp),
        n_tasks = n_tasks (created r) + ?n\<rparr>"
    by (simp add: foldl_sum)
  have pr: "projects ?s' = projects s @ [?p]" by simp
  have pp: "p_id ?p = ?pid \<and> p_name ?p = cp_name cp \<and> p_deletedAt ?p = None"
    by (simp add: mkProject_def)
  have g1: "goals ?s' = goals s @ ?gs" by simp
  have g2: "length ?gs = length (cp_goals cp)" by (simp add: mkGoals_fst_length)
  have g3: "\<forall>g \<in> set ?gs. g_projectId g = p_id ?p \<and> g_deletedAt g = None"
  proof
    fix g assume "g \<in> set ?gs"
    from mkGoals_goal[OF this] show "g_projectId g = p_id ?p \<and> g_deletedAt g = None"
      by (simp add: mkProject_def)
  qed
  have t1: "tasks ?s' = tasks s @ ?ts" by simp
  have t2: "length ?ts = ?n"
    by (simp add: mkGoals_snd_length goalDataOf_def comp_def)
  have t3: "\<forall>x \<in> set ?ts. t_deletedAt x = None"
  proof
    fix x assume "x \<in> set ?ts"
    from mkGoals_task[OF this] show "t_deletedAt x = None" by simp
  qed
  have sub: "map (\<lambda>g. (g_name g,
            map (\<lambda>x. (t_name x, t_completed x, t_urgency x, t_todaysFocus x, t_completedAt x))
              (filter (\<lambda>x. t_goalId x = g_id g) ?ts))) ?gs = ?gds"
    by (rule mkGoals_subtree)
  have rb: "project_findUnique (p_id ?p) ?s' =
             Some (?p, map (\<lambda>g. (g, filter (\<lambda>x. t_goalId x = g_id g) ?ts)) ?gs)"
    if fresh: "\<forall>j\<ge>nextId s. (\<forall>q \<in> set (projects s). p_id q \<noteq> cuid j) \<and>
                     (\<forall>g \<in> set (goals s). g_projectId g \<noteq> cuid j) \<and>
                     (\<forall>x \<in> set (tasks s). t_goalId x \<noteq> cuid j)"
  proof -
    have fp: "\<And>j q. j \<ge> nextId s \<Longrightarrow> q \<in> set (projects s) \<Longrightarrow> p_id q \<noteq> cuid j"
      and fg: "\<And>j g. j \<ge> nextId s \<Longrightarrow> g \<in> set (goals s) \<Longrightarrow> g_projectId g \<noteq> cuid j"
      and ft: "\<And>j x. j \<ge> nextId s \<Longrightarrow> x \<in> set (tasks s) \<Longrightarrow> t_goalId x \<noteq> cuid j"
      using fresh by simp_all
    have "find (\<lambda>q. p_id q = ?pid) (projects s) = None"
      by (rule find_noneI) (simp add: fp)
    then have f: "find (\<lambda>q. p_id q = ?pid) (projects ?s') = Some ?p"
      by (simp add: find_append_None mkProject_def)
    have og: "filter (\<lambda>g. g_projectId g = ?pid \<and> g_deletedAt g = None) (goals s) = []"
      by (rule filter_none) (simp add: fg)
    have ng: "filter (\<lambda>g. g_projectId g = ?pid \<and> g_deletedAt g = None) ?gs = ?gs"
    proof (rule filter_all)
      fix g assume "g \<in> set ?gs"
      from mkGoals_goal[OF this] show "g_projectId g = ?pid \<and> g_deletedAt g = None" by simp
    qed
    have it: "map (includeTasks ?s') ?gs = map (\<lambda>g. (g, filter (\<lambda>x. t_goalId x = g_id g) ?ts)) ?gs"
    proof (rule map_cong[OF refl])
      fix g assume "g \<in> set ?gs"
      from mkGoals_goal[OF this] obtain j where j: "j \<ge> Suc (nextId s)" "g_id g = cuid j" by metis
      then have j': "j \<ge> nextId s" by simp
      have o: "filter (\<lambda>x. t_goalId x = g_id g \<and> t_deletedAt x = None) (tasks s) = []"
        by (rule filter_none) (simp add: j(2) ft[OF j'])
      have n: "filter (\<lambda>x. t_goalId x = g_id g \<and> t_deletedAt x = None) ?ts
           = filter (\<lambda>x. t_goalId x = g_id g) ?ts"
      proof (rule filter_cong[OF refl])
        fix x assume "x \<in> set ?ts"
        from mkGoals_task[OF this]
        show "(t_goalId x = g_id g \<and> t_deletedAt x = None) = (t_goalId x = g_id g)" by simp
      qed
      show "includeTasks ?s' g = (g, filter (\<lambda>x. t_goalId x = g_id g) ?ts)"
        by (simp add: includeTasks_def o n)
    qed
    have ig: "includeGoals ?s' ?p = (?p, map (\<lambda>g. (g, filter (\<lambda>x. t_goalId x = g_id g) ?ts)) ?gs)"
      unfolding includeGoals_def it[symmetric]
      using og ng by (simp add: mkProject_def)
    show ?thesis
      unfolding project_findUnique_def using f ig by (simp add: mkProject_def)
  qed
  show ?thesis
    apply (rule exI[of _ ?s'], rule exI[of _ ?r'], rule exI[of _ ?p], rule exI[of _ ?gs],
        rule exI[of _ ?ts])
    apply (intro conjI)
                 apply (rule run)
                apply (rule u)
               apply (rule c)
              apply (rule pr)
             apply (simp add: pp)
            apply (simp add: pp)
           apply (simp add: pp)
          apply (rule g1)
         apply (rule g2)
        apply (rule g3)
       apply (rule t1)
      apply (rule t2)
     apply (rule t3)
    apply (rule sub)
    apply (rule impI, erule rb)
    done
qed

theorem sync_creates_project_without_id_witness:
  "\<exists>s' r'. syncProject adoptedProject (demoStore, noResults) = Inr (s', r') \<and>
     updated r' = updated noResults \<and>
     created r' = \<lparr>n_projects = 1, n_goals = 1, n_tasks = 2\<rparr> \<and>
     map p_name (projects s') = [''Work'', ''Old'', ''Moved''] \<and>
     map (\<lambda>gt. (g_name (fst gt), map t_name (snd gt)))
       (snd (the (project_findUnique ''c'' s'))) = [(''Ghost'', [''T1'', ''Ghost''])]"
proof -
  have h1: "presentId (cp_id adoptedProject) = None" by (simp add: adoptedProject_def)
  have h2: "writesUntilFailure demoStore = None" by (simp add: demoStore_def)
  have fresh: "\<forall>j\<ge>nextId demoStore. (\<forall>q \<in> set (projects demoStore). p_id q \<noteq> cuid j) \<and>
                     (\<forall>g \<in> set (goals demoStore). g_projectId g \<noteq> cuid j) \<and>
                     (\<forall>x \<in> set (tasks demoStore). t_goalId x \<noteq> cuid j)"
    by (simp add: demoStore_def workProject_def oldProject_def shipGoal_def writeTask_def cuid_def)
  from sync_creates_project_without_id[OF h1 h2, of noResults]
  obtain s' r' p gs ts where
    run: "syncProject adoptedProject (demoStore, noResults) = Inr (s', r')" and
    u: "updated r' = updated noResults" and
    c: "created r' =
       \<lparr>n_projects = n_projects (created noResults) + 1,
        n_goals = n_goals (created noResults) + length (cp_goals adoptedProject),
        n_tasks = n_tasks (created noResults) +
          sum_list (map (\<lambda>g. length (cg_tasks g)) (cp_goals adoptedProject))\<rparr>" and
    pr: "projects s' = projects demoStore @ [p]" and
    pid: "p_id p = cuid (nextId demoStore)" and
    pn: "p_name p = cp_name adoptedProject" and
    sub: "map (\<lambda>g. (g_name g,
            map (\<lambda>x. (t_name x, t_completed x, t_urgency x, t_todaysFocus x, t_completedAt x))
              (filter (\<lambda>x. t_goalId x = g_id g) ts))) gs
       = map goalDataOf (cp_goals adoptedProject)" and
    rb: "(\<forall>j\<ge>nextId demoStore. (\<forall>q \<in> set (projects demoStore). p_id q \<noteq> cuid j) \<and>
                     (\<forall>g \<in> set (goals demoStore). g_projectId g \<noteq> cuid j) \<and>
                     (\<forall>x \<in> set (tasks demoStore). t_goalId x \<noteq> cuid j))
       \<longrightarrow> project_findUnique (p_id p) s' =
             Some (p, map (\<lambda>g. (g, filter (\<lambda>x. t_goalId x = g_id g) ts)) gs)"
    apply (elim exE conjE)
    apply (rule that)
    apply assumption+
    done
  from rb fresh have fu: "project_findUnique (p_id p) s' =
             Some (p, map (\<lambda>g. (g, filter (\<lambda>x. t_goalId x = g_id g) ts)) gs)" by (rule mp)
  have pc: "p_id p = ''c''" using pid by (simp add: demoStore_def cuid_def)
  have names: "map (\<lambda>gt. (g_name (fst gt), map t_name (snd gt)))
       (map (\<lambda>g. (g, filter (\<lambda>x. t_goalId x = g_id g) ts)) gs)
     = map (\<lambda>gd. (fst gd, map fst (snd gd))) (map goalDataOf (cp_goals adoptedProject))"
    unfolding sub[symmetric] by (simp add: comp_def)
  have C: "created r' = \<lparr>n_projects = 1, n_goals = 1, n_tasks = 2\<rparr>"
    unfolding c by (simp add: noResults_def adoptedProject_def ghostGoal_def)
  have P: "map p_name (projects s') = [''Work'', ''Old'', ''Moved'']"
    unfolding pr by (simp add: pn demoStore_def workProject_def oldProject_def adoptedProject_def)
  have R: "map (\<lambda>gt. (g_name (fst gt), map t_name (snd gt)))
       (snd (the (project_findUnique ''c'' s'))) = [(''Ghost'', [''T1'', ''Ghost''])]"
    using fu names unfolding pc
    by (simp add: adoptedProject_def ghostGoal_def goalDataOf_def taskDataOf_def newTask_def
        ghostTask_def)
  show ?thesis
    by (intro exI[of _ s'] exI[of _ r'] conjI run u C P R)
qed

section \<open>C6: a goal created beneath a soft-deleted project\<close>

text \<open>
  C6 says that every creation keeps a goal's \<open>projectId\<close> pointing at a live project,
  also through the reconciler. \<open>createGoal\<close> looks the project up with
  \<open>deletedAt: null\<close> and refuses the soft-deleted project of \<open>demoStore\<close>; the
  reconciler looks it up by id alone and creates the goal and its task beneath it.
\<close>

theorem sync_creates_goal_under_deleted_project:
  "(case syncData \<lparr>req_projects = [revivedProject\<lparr>cp_name := ''Old''\<rparr>], lastSyncedAt = None\<rparr>
           demoStore of
      Inl e \<Rightarrow> False
    | Inr (resp, s') \<Rightarrow>
        map (\<lambda>g. (g_projectId g, g_name g, g_deletedAt g)) (goals s') =
          [(''p1'', ''Ship'', None), (''p2'', ''G1'', None)] \<and>
        map (\<lambda>p. (p_id p, p_deletedAt p)) (projects s') = [(''p1'', None), (''p2'', Some 30)] \<and>
        created (syncResults resp) = \<lparr>n_projects = 0, n_goals = 1, n_tasks = 1\<rparr>) \<and>
   createGoal ''p2'' ''G1'' demoStore = Inl (NotFoundError ''Project'' ''p2'', demoStore)"
  by code_simp

section \<open>C3: the same snapshot twice\<close>

lemma forEach_invariant:
  assumes step: "\<And>pre x st. Inv pre st \<Longrightarrow> (\<exists>post. xs = pre @ x # post)
                  \<Longrightarrow> \<exists>st'. f x st = Inr st' \<and> Inv (pre @ [x]) st'"
    and init: "Inv [] st"
  shows "\<exists>st'. forEach f xs st = Inr st' \<and> Inv xs st'"
proof -
  have "\<exists>st'. forEach f ys st = Inr st' \<and> Inv (pre @ ys) st'"
    if "Inv pre st" "xs = pre @ ys" for pre ys st
    using that
  proof (induction ys arbitrary: pre st)
    case Nil
    then show ?case by simp
  next
    case (Cons y ys)
    from step[OF Cons.prems(1)] Cons.prems(2)
    obtain st1 where s1: "f y st = Inr st1" "Inv (pre @ [y]) st1" by blast
    from Cons.IH[OF s1(2)] Cons.prems(2)
    obtain st' where "forEach f ys st1 = Inr st'" "Inv ((pre @ [y]) @ ys) st'" by auto
    with s1(1) show ?case by simp
  qed
  from this[OF init] show ?thesis by simp
qed

lemma presentId_Some: "presentId x = Some i \<Longrightarrow> x = Some i \<and> i \<noteq> []"
  by (cases x) (auto split: if_splits)

lemma find_exists: "x \<in> set xs \<Longrightarrow> P x \<Longrightarrow> \<exists>y. find P xs = Some y"
  by (cases "find P xs") (auto simp: find_None_iff)

lemma list_all2_map_right:
  "list_all2 (\<lambda>x y. R x (f y)) xs ys \<Longrightarrow> list_all2 R xs (map f ys)"
  by (simp add: list_all2_map2)

lemma overwrite_frame: "sameTaskFrame t t1 \<Longrightarrow> sameTaskFrame t ((overwriteTask ct t1)\<lparr>t_updatedAt := u\<rparr>)"
  by (simp add: sameTaskFrame_def overwriteTask_def)

lemma overwrite_content: "taskContent ((overwriteTask ct t1)\<lparr>t_updatedAt := u\<rparr>) = taskDataOf ct"
  by (simp add: taskContent_def overwriteTask_def taskDataOf_def)

lemma lastHit_Nil: "lastHit P [] = None"
  by (simp add: lastHit_def)

lemma lastHit_snoc: "lastHit P (xs @ [x]) = (if P x then Some x else lastHit P xs)"
  by (simp add: lastHit_def)

lemma lastHit_None: "(lastHit P xs = None) = (\<forall>x \<in> set xs. \<not> P x)"
  by (auto simp: lastHit_def find_None_iff)

lemma lastHit_Some: "lastHit P xs = Some x \<Longrightarrow> x \<in> set xs \<and> P x"
  unfolding lastHit_def using find_SomeD[of P "rev xs" x] by simp

lemma taskAfter_refl: "taskAfter gid [] t t"
  by (simp add: taskAfter_def lastHit_Nil sameTaskFrame_def)

lemma taskAfter_frame: "taskAfter gid pre t t1 \<Longrightarrow> sameTaskFrame t t1"
  by (simp add: taskAfter_def)

lemma taskAfter_skip:
  assumes r: "taskAfter gid pre t t1" and nohit: "\<not> taskHit gid ct t"
  shows "taskAfter gid (pre @ [ct]) t t1"
  using r nohit unfolding taskAfter_def by (simp add: lastHit_snoc)

lemma taskAfter_write:
  assumes r: "taskAfter gid pre t t1" and hit: "taskHit gid ct t"
  shows "taskAfter gid (pre @ [ct]) t ((overwriteTask ct t1)\<lparr>t_updatedAt := u\<rparr>)"
proof -
  from r have f: "sameTaskFrame t t1" by (rule taskAfter_frame)
  show ?thesis unfolding taskAfter_def
    using overwrite_frame[OF f] hit by (simp add: lastHit_snoc overwrite_content)
qed

lemma taskAfter_none:
  assumes r: "taskAfter gid pre t t1" and n: "\<And>c. c \<in> set pre \<Longrightarrow> \<not> taskHit gid c t"
  shows "t1 = t"
proof -
  have "lastHit (\<lambda>ct. taskHit gid ct t) pre = None" unfolding lastHit_None using n by simp
  with r show ?thesis by (simp add: taskAfter_def)
qed

lemma taskAfter_other:
  assumes r: "taskAfter gid pre t t1" and o: "t_goalId t \<noteq> gid"
  shows "t1 = t"
  using r by (rule taskAfter_none) (simp add: taskHit_def o)

lemma list_all2_frame_ids:
  "list_all2 (taskAfter gid pre) xs ys \<Longrightarrow> map t_id ys = map t_id xs"
  by (induction rule: list_all2_induct) (simp_all add: taskAfter_def sameTaskFrame_def)

text \<open>One step of the task loop, for a client task with an id.\<close>

lemma syncTask_step:
  assumes ok: "writesUntilFailure \<sigma> = None"
    and pk: "distinct (map t_id (tasks s))"
    and stale: "\<And>tid. (\<exists>x \<in> set stale. t_id x = tid) \<longleftrightarrow>
                  (\<exists>t \<in> set (tasks s). t_deletedAt t = None \<and> t_goalId t = gid \<and> t_id t = tid)"
    and rel: "list_all2 (taskAfter gid pre) (tasks s) (tasks \<sigma>)"
    and pid: "presentId (ct_id ct) = Some tid"
  shows "\<exists>\<sigma>'. syncTask gid stale ct (\<sigma>, r) =
            Inr (\<sigma>', r\<lparr>updated := (updated r)\<lparr>n_tasks := n_tasks (updated r) +
                    hitCount gid (tasks s) [ct]\<rparr>\<rparr>) \<and>
          writesUntilFailure \<sigma>' = None \<and> projects \<sigma>' = projects \<sigma> \<and> goals \<sigma>' = goals \<sigma> \<and>
          list_all2 (taskAfter gid (pre @ [ct])) (tasks s) (tasks \<sigma>')"
proof (cases "\<exists>t \<in> set (tasks s). t_deletedAt t = None \<and> t_goalId t = gid \<and> t_id t = tid")
  case False
  have ns: "\<not> (\<exists>x \<in> set stale. t_id x = tid)" unfolding stale by (rule False)
  have nf: "find (\<lambda>t. t_id t = tid) stale = None"
  proof (rule find_noneI)
    fix x assume "x \<in> set stale"
    with ns show "\<not> t_id x = tid" by blast
  qed
  have nohit: "\<not> taskHit gid ct t" if "t \<in> set (tasks s)" for t
    using False that pid by (auto simp: taskHit_def)
  have cnt: "hitCount gid (tasks s) [ct] = 0"
    using nohit by (simp add: hitCount_def)
  have run: "syncTask gid stale ct (\<sigma>, r) = Inr (\<sigma>, r)"
    using pid nf by (simp add: syncTask_def)
  have rel': "list_all2 (taskAfter gid (pre @ [ct])) (tasks s) (tasks \<sigma>)"
    using rel
  proof (rule list.rel_mono_strong)
    fix t t1 assume "t \<in> set (tasks s)" "taskAfter gid pre t t1"
    then show "taskAfter gid (pre @ [ct]) t t1"
      using nohit by (simp add: taskAfter_skip)
  qed
  show ?thesis
    by (rule exI[of _ \<sigma>]) (simp add: run cnt ok rel')
next
  case True
  then obtain t0 where t0: "t0 \<in> set (tasks s)" "t_deletedAt t0 = None" "t_goalId t0 = gid"
    "t_id t0 = tid" by metis
  then have hit0: "taskHit gid ct t0" using pid by (simp add: taskHit_def)
  from True stale[of tid] obtain x where "x \<in> set stale" "t_id x = tid" by metis
  then obtain st where sf: "find (\<lambda>t. t_id t = tid) stale = Some st"
    using find_exists[of x stale "\<lambda>t. t_id t = tid"] by metis
  have ids: "map t_id (tasks \<sigma>) = map t_id (tasks s)" using rel by (rule list_all2_frame_ids)
  have "tid \<in> set (map t_id (tasks \<sigma>))" unfolding ids using t0 by (simp add: image_iff) metis
  then obtain y where y: "y \<in> set (tasks \<sigma>)" "t_id y = tid" by (auto simp: image_iff)
  then obtain q where q: "find (\<lambda>t. t_id t = tid) (tasks \<sigma>) = Some q"
    using find_exists[of y "tasks \<sigma>" "\<lambda>t. t_id t = tid"] by metis
  let ?u = "fst (now \<sigma>)"
  let ?F = "\<lambda>x. if t_id x = tid then (overwriteTask ct x)\<lparr>t_updatedAt := ?u\<rparr> else x"
  let ?\<sigma>' = "(snd (now \<sigma>))\<lparr>tasks := map ?F (tasks \<sigma>)\<rparr>"
  have up: "task_update tid (\<lambda>t. t\<lparr>t_name := ct_name ct, t_completed := ct_completed ct,
                  t_urgency := ct_urgency ct, t_todaysFocus := ct_todaysFocus ct,
                  t_completedAt := ct_completedAt ct\<rparr>) \<sigma> = Inr ?\<sigma>'"
    using task_update_ok[OF ok q] by (simp add: overwriteTask_def)
  have cnt: "hitCount gid (tasks s) [ct] = 1"
    using hit0 t0(1) by (auto simp: hitCount_def)
  have run: "syncTask gid stale ct (\<sigma>, r) =
      Inr (?\<sigma>', r\<lparr>updated := (updated r)\<lparr>n_tasks := n_tasks (updated r) + 1\<rparr>\<rparr>)"
    using pid sf up by (simp add: syncTask_def)
  have relF: "list_all2 (\<lambda>t t1. taskAfter gid (pre @ [ct]) t (?F t1)) (tasks s) (tasks \<sigma>)"
    using rel
  proof (rule list.rel_mono_strong)
    fix t t1 assume m: "t \<in> set (tasks s)" and a: "taskAfter gid pre t t1"
    from a have idt: "t_id t1 = t_id t" by (simp add: taskAfter_def sameTaskFrame_def)
    show "taskAfter gid (pre @ [ct]) t (?F t1)"
    proof (cases "t_id t = tid")
      case True
      have "t = t0" using pk m t0(1) by (rule distinct_map_eq) (simp add: True t0(4))
      with hit0 have "taskHit gid ct t" by simp
      from taskAfter_write[OF a this] show ?thesis using True idt by simp
    next
      case False
      then have "\<not> taskHit gid ct t" using pid by (simp add: taskHit_def)
      from taskAfter_skip[OF a this] show ?thesis using False idt by simp
    qed
  qed
  have rel': "list_all2 (taskAfter gid (pre @ [ct])) (tasks s) (map ?F (tasks \<sigma>))"
    using relF by (rule list_all2_map_right)
  show ?thesis
    apply (rule exI[of _ ?\<sigma>'])
    apply (intro conjI)
        apply (simp add: run cnt)
       apply (simp add: ok)
      apply simp
     apply simp
    using rel' apply simp
    done
qed

lemma hitCount_append:
  "hitCount gid ts (a @ b) = hitCount gid ts a + hitCount gid ts b"
  by (simp add: hitCount_def)

lemma taskLoop:
  assumes ok: "writesUntilFailure s = None"
    and pk: "distinct (map t_id (tasks s))"
    and stale: "\<And>tid. (\<exists>x \<in> set stale. t_id x = tid) \<longleftrightarrow>
                  (\<exists>t \<in> set (tasks s). t_deletedAt t = None \<and> t_goalId t = gid \<and> t_id t = tid)"
    and ids: "\<forall>ct \<in> set cts. presentId (ct_id ct) \<noteq> None"
  shows "\<exists>\<sigma>'. forEach (syncTask gid stale) cts (s, r) =
            Inr (\<sigma>', r\<lparr>updated := (updated r)\<lparr>n_tasks := n_tasks (updated r) +
                    hitCount gid (tasks s) cts\<rparr>\<rparr>) \<and>
          writesUntilFailure \<sigma>' = None \<and> projects \<sigma>' = projects s \<and> goals \<sigma>' = goals s \<and>
          list_all2 (taskAfter gid cts) (tasks s) (tasks \<sigma>')"
proof -
  define Inv where "Inv = (\<lambda>pre (st :: store \<times> results). \<exists>\<sigma>.
      st = (\<sigma>, r\<lparr>updated := (updated r)\<lparr>n_tasks := n_tasks (updated r) +
                    hitCount gid (tasks s) pre\<rparr>\<rparr>) \<and>
      writesUntilFailure \<sigma> = None \<and> projects \<sigma> = projects s \<and> goals \<sigma> = goals s \<and>
      list_all2 (taskAfter gid pre) (tasks s) (tasks \<sigma>))"
  have init: "Inv [] (s, r)"
    unfolding Inv_def
    by (rule exI[of _ s]) (simp add: hitCount_def ok list.rel_refl taskAfter_refl)
  have step: "\<exists>st'. syncTask gid stale x st = Inr st' \<and> Inv (pre @ [x]) st'"
    if inv: "Inv pre st" and pos: "\<exists>post. cts = pre @ x # post" for pre x st
  proof -
    from inv obtain \<sigma> where st: "st = (\<sigma>, r\<lparr>updated := (updated r)\<lparr>n_tasks := n_tasks (updated r) +
                    hitCount gid (tasks s) pre\<rparr>\<rparr>)"
      and ok': "writesUntilFailure \<sigma> = None" and p: "projects \<sigma> = projects s"
      and g: "goals \<sigma> = goals s"
      and rel: "list_all2 (taskAfter gid pre) (tasks s) (tasks \<sigma>)"
      unfolding Inv_def by metis
    from pos obtain post where cts: "cts = pre @ x # post" by metis
    then have "x \<in> set cts" by simp
    from ids[THEN bspec, OF this] obtain tid where tid: "presentId (ct_id x) = Some tid" by (cases "presentId (ct_id x)") simp_all
    let ?r = "r\<lparr>updated := (updated r)\<lparr>n_tasks := n_tasks (updated r) +
                    hitCount gid (tasks s) pre\<rparr>\<rparr>"
    from syncTask_step[OF ok' pk stale rel tid, of ?r]
    obtain \<sigma>' where run: "syncTask gid stale x (\<sigma>, ?r) =
            Inr (\<sigma>', ?r\<lparr>updated := (updated ?r)\<lparr>n_tasks := n_tasks (updated ?r) +
                    hitCount gid (tasks s) [x]\<rparr>\<rparr>)"
      and ok'': "writesUntilFailure \<sigma>' = None" and p': "projects \<sigma>' = projects \<sigma>"
      and g': "goals \<sigma>' = goals \<sigma>"
      and rel': "list_all2 (taskAfter gid (pre @ [x])) (tasks s) (tasks \<sigma>')"
      by metis
    have req: "?r\<lparr>updated := (updated ?r)\<lparr>n_tasks := n_tasks (updated ?r) +
                    hitCount gid (tasks s) [x]\<rparr>\<rparr>
        = r\<lparr>updated := (updated r)\<lparr>n_tasks := n_tasks (updated r) +
                    hitCount gid (tasks s) (pre @ [x])\<rparr>\<rparr>"
      by (simp add: hitCount_append)
    have "Inv (pre @ [x]) (\<sigma>', ?r\<lparr>updated := (updated ?r)\<lparr>n_tasks := n_tasks (updated ?r) +
                    hitCount gid (tasks s) [x]\<rparr>\<rparr>)"
      unfolding Inv_def req
      by (rule exI[of _ \<sigma>']) (simp add: ok'' p' g' p g rel')
    with run st show ?thesis by metis
  qed
  from forEach_invariant[of Inv cts "syncTask gid stale" "(s, r)", OF step init]
  obtain st' where "forEach (syncTask gid stale) cts (s, r) = Inr st'" "Inv cts st'" by metis
  then show ?thesis unfolding Inv_def by metis
qed

lemma goalAfter_refl: "goalAfter pid [] g g"
  by (simp add: goalAfter_def sameGoalFrame_def)

lemma taskAfterGoals_refl: "taskAfterGoals pid GS [] t t"
  by (simp add: taskAfterGoals_def sameTaskFrame_def)

lemma goalAfter_D:
  assumes "goalAfter pid pre g g1"
  shows "sameGoalFrame g g1"
    and "\<And>c. c \<in> set pre \<Longrightarrow> goalHit pid c g \<Longrightarrow> g_name g1 = cg_name c"
    and "(\<And>c. c \<in> set pre \<Longrightarrow> goalHit pid c g \<Longrightarrow> g_name g = cg_name c) \<Longrightarrow> g1 = g"
  using assms unfolding goalAfter_def by simp_all

lemma goalAfter_I:
  assumes "sameGoalFrame g g1"
    and "\<And>c. c \<in> set pre \<Longrightarrow> goalHit pid c g \<Longrightarrow> g_name g1 = cg_name c"
    and "(\<And>c. c \<in> set pre \<Longrightarrow> goalHit pid c g \<Longrightarrow> g_name g = cg_name c) \<Longrightarrow> g1 = g"
  shows "goalAfter pid pre g g1"
  unfolding goalAfter_def using assms by simp

lemma taskAfterGoals_D:
  assumes "taskAfterGoals pid GS pre t t1"
  shows "sameTaskFrame t t1"
    and "\<And>c. c \<in> set pre \<Longrightarrow> goalCovers pid GS c t
            \<Longrightarrow> taskAfter (t_goalId t) (cg_tasks c) t t1"
    and "(\<And>c. c \<in> set pre \<Longrightarrow> \<not> goalCovers pid GS c t) \<Longrightarrow> t1 = t"
  using assms unfolding taskAfterGoals_def by simp_all

lemma taskAfterGoals_I:
  assumes "sameTaskFrame t t1"
    and "\<And>c. c \<in> set pre \<Longrightarrow> goalCovers pid GS c t
            \<Longrightarrow> taskAfter (t_goalId t) (cg_tasks c) t t1"
    and "(\<And>c. c \<in> set pre \<Longrightarrow> \<not> goalCovers pid GS c t) \<Longrightarrow> t1 = t"
  shows "taskAfterGoals pid GS pre t t1"
  unfolding taskAfterGoals_def using assms by simp

lemma goalHit_same_id:
  assumes "goalHit pid c g" "goalHit pid c' g"
  shows "cg_id c = cg_id c'"
proof -
  from assms have "presentId (cg_id c) = Some (g_id g)" "presentId (cg_id c') = Some (g_id g)"
    by (simp_all add: goalHit_def)
  then show ?thesis using presentId_Some by metis
qed

lemma goalHit_frame: "sameGoalFrame g g1 \<Longrightarrow> goalHit pid c g1 = goalHit pid c g"
  by (simp add: goalHit_def sameGoalFrame_def)

lemma taskHit_frame: "sameTaskFrame t t1 \<Longrightarrow> taskHit gid c t1 = taskHit gid c t"
  by (simp add: taskHit_def sameTaskFrame_def)

lemma sameTaskFrame_trans: "sameTaskFrame a b \<Longrightarrow> sameTaskFrame b c \<Longrightarrow> sameTaskFrame a c"
  by (simp add: sameTaskFrame_def)

lemma sameGoalFrame_trans: "sameGoalFrame a b \<Longrightarrow> sameGoalFrame b c \<Longrightarrow> sameGoalFrame a c"
  by (simp add: sameGoalFrame_def)

lemma goalAfter_skip:
  assumes r: "goalAfter pid pre g g1" and nohit: "\<not> goalHit pid cg g"
  shows "goalAfter pid (pre @ [cg]) g g1"
proof (rule goalAfter_I)
  show "sameGoalFrame g g1" using r by (rule goalAfter_D(1))
next
  fix c assume "c \<in> set (pre @ [cg])" "goalHit pid c g"
  then have p: "c \<in> set pre" and h: "goalHit pid c g" using nohit by auto
  show "g_name g1 = cg_name c" by (rule goalAfter_D(2)[OF r p h])
next
  assume "\<And>c. c \<in> set (pre @ [cg]) \<Longrightarrow> goalHit pid c g \<Longrightarrow> g_name g = cg_name c"
  then have "\<And>c. c \<in> set pre \<Longrightarrow> goalHit pid c g \<Longrightarrow> g_name g = cg_name c" by simp
  then show "g1 = g" by (rule goalAfter_D(3)[OF r])
qed

lemma goalAfter_untouched:
  assumes r: "goalAfter pid pre g g1" and hit: "goalHit pid cg g"
    and fresh: "\<And>c. c \<in> set pre \<Longrightarrow> cg_id c \<noteq> cg_id cg"
  shows "g1 = g"
proof (rule goalAfter_D(3)[OF r])
  fix c assume "c \<in> set pre" "goalHit pid c g"
  with goalHit_same_id[OF this(2) hit] fresh show "g_name g = cg_name c" by metis
qed

lemma goalAfter_keep:
  assumes r: "goalAfter pid pre g g1" and hit: "goalHit pid cg g"
    and fresh: "\<And>c. c \<in> set pre \<Longrightarrow> cg_id c \<noteq> cg_id cg"
    and same: "g_name g = cg_name cg"
  shows "goalAfter pid (pre @ [cg]) g g1"
proof -
  have e: "g1 = g" using r hit fresh by (rule goalAfter_untouched)
  show ?thesis
  proof (rule goalAfter_I)
    show "sameGoalFrame g g1" using r by (rule goalAfter_D(1))
  next
    fix c assume c: "c \<in> set (pre @ [cg])" "goalHit pid c g"
    have "c = cg"
    proof (rule ccontr)
      assume "c \<noteq> cg"
      with c(1) have "c \<in> set pre" by simp
      from fresh[OF this] goalHit_same_id[OF c(2) hit] show False by simp
    qed
    then show "g_name g1 = cg_name c" using e same by simp
  next
    show "g1 = g" by (rule e)
  qed
qed

lemma goalAfter_write:
  assumes r: "goalAfter pid pre g g1" and hit: "goalHit pid cg g"
    and fresh: "\<And>c. c \<in> set pre \<Longrightarrow> cg_id c \<noteq> cg_id cg"
    and differ: "g_name g \<noteq> cg_name cg"
  shows "goalAfter pid (pre @ [cg]) g (g1\<lparr>g_name := cg_name cg, g_updatedAt := u\<rparr>)"
proof (rule goalAfter_I)
  have "sameGoalFrame g g1" using r by (rule goalAfter_D(1))
  then show "sameGoalFrame g (g1\<lparr>g_name := cg_name cg, g_updatedAt := u\<rparr>)"
    by (simp add: sameGoalFrame_def)
next
  fix c assume c: "c \<in> set (pre @ [cg])" "goalHit pid c g"
  have "c = cg"
  proof (rule ccontr)
    assume "c \<noteq> cg"
    with c(1) have "c \<in> set pre" by simp
    from fresh[OF this] goalHit_same_id[OF c(2) hit] show False by simp
  qed
  then show "g_name (g1\<lparr>g_name := cg_name cg, g_updatedAt := u\<rparr>) = cg_name c" by simp
next
  assume "\<And>c. c \<in> set (pre @ [cg]) \<Longrightarrow> goalHit pid c g \<Longrightarrow> g_name g = cg_name c"
  from this[of cg] hit differ have False by simp
  then show "g1\<lparr>g_name := cg_name cg, g_updatedAt := u\<rparr> = g" ..
qed

lemma taskAfterGoals_skip:
  assumes r: "taskAfterGoals pid GS pre t t1"
    and nohit: "\<And>g. g \<in> set GS \<Longrightarrow> \<not> goalHit pid cg g"
  shows "taskAfterGoals pid GS (pre @ [cg]) t t1"
proof (rule taskAfterGoals_I)
  show "sameTaskFrame t t1" using r by (rule taskAfterGoals_D(1))
next
  have no: "\<not> goalCovers pid GS cg t"
    using nohit unfolding goalCovers_def by blast
  {
    fix c assume c: "c \<in> set (pre @ [cg])" "goalCovers pid GS c t"
    have "c \<noteq> cg" using c(2) no by metis
    with c(1) have "c \<in> set pre" by simp
    from taskAfterGoals_D(2)[OF r this c(2)]
    show "taskAfter (t_goalId t) (cg_tasks c) t t1" .
  }
  assume a: "\<And>c. c \<in> set (pre @ [cg]) \<Longrightarrow> \<not> goalCovers pid GS c t"
  show "t1 = t"
  proof (rule taskAfterGoals_D(3)[OF r])
    fix c assume "c \<in> set pre"
    then show "\<not> goalCovers pid GS c t" using a[of c] by simp
  qed
qed

text \<open>The task rows after the task loop of the goal \<open>g0\<close> that the client goal \<open>cg\<close> hits.\<close>

lemma taskAfterGoals_loop:
  assumes a: "taskAfterGoals pid GS pre t t1"
    and b: "taskAfter gid (cg_tasks cg) t1 t2"
    and g0: "g0 \<in> set GS" "goalHit pid cg g0" "g_id g0 = gid"
    and pk: "distinct (map g_id GS)"
    and fresh: "\<And>c. c \<in> set pre \<Longrightarrow> cg_id c \<noteq> cg_id cg"
  shows "taskAfterGoals pid GS (pre @ [cg]) t t2"
proof -
  have f1: "sameTaskFrame t t1" using a by (rule taskAfterGoals_D(1))
  have f2: "sameTaskFrame t1 t2" using b by (rule taskAfter_frame)
  have gt1: "t_goalId t1 = t_goalId t" using f1 by (simp add: sameTaskFrame_def)
  have cover_cg: "t_goalId t = gid" if "goalCovers pid GS cg t"
  proof -
    from that obtain g where g: "g \<in> set GS" "goalHit pid cg g" "g_id g = t_goalId t"
      unfolding goalCovers_def by blast
    from g(2) g0(2) have "g_id g = g_id g0" by (simp add: goalHit_def)
    with g(3) g0(3) show ?thesis by simp
  qed
  have cover_pre: "t_goalId t \<noteq> gid" if c: "c \<in> set pre" "goalCovers pid GS c t" for c
  proof
    assume e: "t_goalId t = gid"
    from c(2) obtain g where g: "g \<in> set GS" "goalHit pid c g" "g_id g = t_goalId t"
      unfolding goalCovers_def by blast
    have "g = g0" using pk g(1) g0(1) by (rule distinct_map_eq) (simp add: g(3) e g0(3))
    with g(2) have "goalHit pid c g0" by simp
    from goalHit_same_id[OF this g0(2)] fresh[OF c(1)] show False by simp
  qed
  show ?thesis
  proof (cases "t_goalId t = gid")
    case True
    have e1: "t1 = t"
    proof (rule taskAfterGoals_D(3)[OF a])
      fix c assume "c \<in> set pre"
      then show "\<not> goalCovers pid GS c t" using cover_pre True by metis
    qed
    show ?thesis
    proof (rule taskAfterGoals_I)
      show "sameTaskFrame t t2" using f1 f2 by (rule sameTaskFrame_trans)
    next
      fix c assume c: "c \<in> set (pre @ [cg])" "goalCovers pid GS c t"
      have "c = cg"
      proof (rule ccontr)
        assume "c \<noteq> cg"
        with c(1) have "c \<in> set pre" by simp
        from cover_pre[OF this c(2)] True show False by simp
      qed
      then show "taskAfter (t_goalId t) (cg_tasks c) t t2" using b e1 True by simp
    next
      assume n: "\<And>c. c \<in> set (pre @ [cg]) \<Longrightarrow> \<not> goalCovers pid GS c t"
      have "goalCovers pid GS cg t"
        unfolding goalCovers_def using g0 True by (intro bexI[of _ g0]) simp_all
      with n[of cg] have False by simp
      then show "t2 = t" ..
    qed
  next
    case False
    have e2: "t2 = t1" using b by (rule taskAfter_other) (simp add: gt1 False)
    show ?thesis
    proof (rule taskAfterGoals_I)
      show "sameTaskFrame t t2" using f1 f2 by (rule sameTaskFrame_trans)
    next
      fix c assume c: "c \<in> set (pre @ [cg])" "goalCovers pid GS c t"
      have "c \<noteq> cg" using cover_cg c(2) False by metis
      with c(1) have "c \<in> set pre" by simp
      from taskAfterGoals_D(2)[OF a this c(2)] e2
      show "taskAfter (t_goalId t) (cg_tasks c) t t2" by simp
    next
      assume n: "\<And>c. c \<in> set (pre @ [cg]) \<Longrightarrow> \<not> goalCovers pid GS c t"
      have "t1 = t"
      proof (rule taskAfterGoals_D(3)[OF a])
        fix c assume "c \<in> set pre"
        then show "\<not> goalCovers pid GS c t" using n[of c] by simp
      qed
      with e2 show "t2 = t" by simp
    qed
  qed
qed

lemma list_all2_compose:
  "list_all2 R xs ys \<Longrightarrow> list_all2 S ys zs \<Longrightarrow>
   (\<And>x y z. x \<in> set xs \<Longrightarrow> R x y \<Longrightarrow> S y z \<Longrightarrow> T x z) \<Longrightarrow> list_all2 T xs zs"
proof (induction arbitrary: zs rule: list_all2_induct)
  case Nil
  then show ?case by simp
next
  case (Cons x xs y ys)
  from Cons.prems(1) obtain z zs' where z: "zs = z # zs'" "S y z" "list_all2 S ys zs'"
    by (cases zs) auto
  have "T x z" using Cons.prems(2)[of x y z] Cons.hyps(1) z(2) by simp
  moreover have "list_all2 T xs zs'"
    using Cons.IH[OF z(3)] Cons.prems(2) by simp
  ultimately show ?case using z(1) by simp
qed

lemma bex_transfer:
  "list_all2 R xs ys \<Longrightarrow> (\<And>x y. R x y \<Longrightarrow> P x = Q y) \<Longrightarrow>
   (\<exists>x \<in> set xs. P x) = (\<exists>y \<in> set ys. Q y)"
  by (induction rule: list_all2_induct) auto

lemma hitCount_frame:
  assumes "list_all2 sameTaskFrame xs ys"
  shows "hitCount gid ys cts = hitCount gid xs cts"
proof -
  have "(\<exists>t \<in> set ys. taskHit gid ct t) = (\<exists>t \<in> set xs. taskHit gid ct t)" for ct
    by (rule bex_transfer[OF assms, symmetric]) (simp add: taskHit_frame)
  then show ?thesis by (simp add: hitCount_def)
qed

lemma taskAfterGoals_frames:
  "list_all2 (taskAfterGoals pid GS pre) xs ys \<Longrightarrow> list_all2 sameTaskFrame xs ys"
  by (erule list_all2_mono) (rule taskAfterGoals_D(1))

lemma goalAfter_frames:
  "list_all2 (goalAfter pid pre) xs ys \<Longrightarrow> list_all2 sameGoalFrame xs ys"
  by (erule list_all2_mono) (rule goalAfter_D(1))

lemma taskFrames_ids: "list_all2 sameTaskFrame xs ys \<Longrightarrow> map t_id ys = map t_id xs"
  by (induction rule: list_all2_induct) (simp_all add: sameTaskFrame_def)

lemma goalFrames_ids: "list_all2 sameGoalFrame xs ys \<Longrightarrow> map g_id ys = map g_id xs"
  by (induction rule: list_all2_induct) (simp_all add: sameGoalFrame_def)

lemma find_unique:
  assumes "distinct (map f xs)" "x \<in> set xs" "P x" "\<And>y. y \<in> set xs \<Longrightarrow> P y \<Longrightarrow> f y = f x"
  shows "find P xs = Some x"
proof -
  from find_exists[of x xs P] assms(2,3) obtain y where y: "find P xs = Some y" by metis
  from find_SomeD[OF y] have "y \<in> set xs" "P y" by simp_all
  with assms(4) have "f y = f x" by simp
  with assms(1) \<open>y \<in> set xs\<close> assms(2) have "y = x" by (rule distinct_map_eq)
  with y show ?thesis by simp
qed

lemma find_map_any: "find P (map f xs) = map_option f (find (\<lambda>x. P (f x)) xs)"
  by (induction xs) simp_all

text \<open>What the read of the project gives for a goal id.\<close>

lemma findGoal_none:
  assumes "\<And>g. g \<in> set (goals s) \<Longrightarrow> \<not> goalHit pid cg g"
    and "presentId (cg_id cg) = Some gid"
    and "p_id p = pid"
  shows "find (\<lambda>sg. g_id (fst sg) = gid) (snd (includeGoals s p)) = None"
proof (rule find_noneI)
  fix sg assume "sg \<in> set (snd (includeGoals s p))"
  then obtain g where g: "g \<in> set (goals s)" "g_projectId g = pid" "g_deletedAt g = None"
    "sg = includeTasks s g"
    using assms(3) unfolding includeGoals_def by (auto simp: image_iff)
  from assms(1)[OF g(1)] g(2,3) assms(2) have "g_id g \<noteq> gid" by (auto simp: goalHit_def)
  then show "\<not> g_id (fst sg) = gid" by (simp add: g(4) includeTasks_def)
qed

lemma findGoal_some:
  assumes pk: "distinct (map g_id (goals s))"
    and g0: "g0 \<in> set (goals s)" "goalHit pid cg g0"
    and gid: "presentId (cg_id cg) = Some gid"
    and p: "p_id p = pid"
  shows "find (\<lambda>sg. g_id (fst sg) = gid) (snd (includeGoals s p)) =
           Some (g0, filter (\<lambda>t. t_goalId t = gid \<and> t_deletedAt t = None) (tasks s))"
proof -
  from g0(2) gid have g0': "g_deletedAt g0 = None" "g_projectId g0 = pid" "g_id g0 = gid"
    by (simp_all add: goalHit_def)
  let ?live = "filter (\<lambda>g. g_projectId g = p_id p \<and> g_deletedAt g = None) (goals s)"
  have d: "distinct (map g_id ?live)" using pk by (rule distinct_map_filter)
  have m: "g0 \<in> set ?live" using g0(1) g0' p by simp
  have f: "find (\<lambda>g. g_id g = gid) ?live = Some g0"
    using d m by (rule find_unique) (simp_all add: g0')
  have "find (\<lambda>sg. g_id (fst sg) = gid) (map (includeTasks s) ?live)
      = map_option (includeTasks s) (find (\<lambda>g. g_id g = gid) ?live)"
    by (simp add: find_map_any includeTasks_def)
  then show ?thesis
    unfolding includeGoals_def by (simp add: f includeTasks_def g0')
qed

lemma syncGoal_step:
  assumes ok: "writesUntilFailure \<sigma> = None"
    and pkG: "distinct (map g_id (goals s))"
    and pkT: "distinct (map t_id (tasks s))"
    and p: "p_id p = pid"
    and relG: "list_all2 (goalAfter pid pre) (goals s) (goals \<sigma>)"
    and relT: "list_all2 (taskAfterGoals pid (goals s) pre) (tasks s) (tasks \<sigma>)"
    and gid: "presentId (cg_id cg) = Some gid"
    and fresh: "\<And>c. c \<in> set pre \<Longrightarrow> cg_id c \<noteq> cg_id cg"
    and tids: "\<forall>ct \<in> set (cg_tasks cg). presentId (ct_id ct) \<noteq> None"
  shows "\<exists>\<sigma>' r'. syncGoal pid (snd (includeGoals s p)) cg (\<sigma>, r) = Inr (\<sigma>', r') \<and>
          writesUntilFailure \<sigma>' = None \<and> projects \<sigma>' = projects \<sigma> \<and>
          list_all2 (goalAfter pid (pre @ [cg])) (goals s) (goals \<sigma>') \<and>
          list_all2 (taskAfterGoals pid (goals s) (pre @ [cg])) (tasks s) (tasks \<sigma>') \<and>
          created r' = created r \<and>
          n_projects (updated r') = n_projects (updated r) \<and>
          n_tasks (updated r') = n_tasks (updated r) + goalsHitCount pid (goals s) (tasks s) [cg] \<and>
          ((\<forall>g \<in> set (goals s). goalHit pid cg g \<longrightarrow> g_name g = cg_name cg)
             \<longrightarrow> n_goals (updated r') = n_goals (updated r))"
proof (cases "\<exists>g \<in> set (goals s). goalHit pid cg g")
  case False
  then have nohit: "\<And>g. g \<in> set (goals s) \<Longrightarrow> \<not> goalHit pid cg g" by blast
  have nf: "find (\<lambda>sg. g_id (fst sg) = gid) (snd (includeGoals s p)) = None"
    using nohit gid p by (rule findGoal_none)
  have run: "syncGoal pid (snd (includeGoals s p)) cg (\<sigma>, r) = Inr (\<sigma>, r)"
    using gid nf by (simp add: syncGoal_def)
  have g': "list_all2 (goalAfter pid (pre @ [cg])) (goals s) (goals \<sigma>)"
    using relG
  proof (rule list.rel_mono_strong)
    fix g g1 assume "g \<in> set (goals s)" "goalAfter pid pre g g1"
    then show "goalAfter pid (pre @ [cg]) g g1" using nohit by (simp add: goalAfter_skip)
  qed
  have t': "list_all2 (taskAfterGoals pid (goals s) (pre @ [cg])) (tasks s) (tasks \<sigma>)"
    using relT
  proof (rule list.rel_mono_strong)
    fix t t1 assume "taskAfterGoals pid (goals s) pre t t1"
    then show "taskAfterGoals pid (goals s) (pre @ [cg]) t t1"
      using nohit by (rule taskAfterGoals_skip)
  qed
  have cnt: "goalsHitCount pid (goals s) (tasks s) [cg] = 0"
    using False gid by (simp add: goalsHitCount_def)
  show ?thesis
    apply (rule exI[of _ \<sigma>], rule exI[of _ r])
    apply (intro conjI)
            apply (rule run)
           apply (rule ok)
          apply simp
         apply (rule g')
        apply (rule t')
       apply simp
      apply simp
     apply (simp add: cnt)
    apply simp
    done
next
  case True
  then obtain g0 where g0: "g0 \<in> set (goals s)" "goalHit pid cg g0" by blast
  from g0(2) gid have g0id: "g_id g0 = gid" by (simp add: goalHit_def)
  let ?st = "filter (\<lambda>t. t_goalId t = gid \<and> t_deletedAt t = None) (tasks s)"
  have sf: "find (\<lambda>sg. g_id (fst sg) = gid) (snd (includeGoals s p)) = Some (g0, ?st)"
    using pkG g0 gid p by (rule findGoal_some)
  have only: "g = g0" if "g \<in> set (goals s)" "g_id g = gid" for g
    using pkG that(1) g0(1) by (rule distinct_map_eq) (simp add: that(2) g0id)
  have hit_id: "g_id g = gid" if "goalHit pid cg g" for g
    using that gid by (simp add: goalHit_def)
  have gids: "map g_id (goals \<sigma>) = map g_id (goals s)"
    using goalAfter_frames[OF relG] by (rule goalFrames_ids)
  have nameStep: "\<exists>\<sigma>a ra.
      (if g_name g0 \<noteq> cg_name cg
       then (case goal_update gid (\<lambda>g. g\<lparr>g_name := cg_name cg\<rparr>) \<sigma> of
               Inl e \<Rightarrow> Inl e
             | Inr s' \<Rightarrow> Inr (s', r\<lparr>updated := (updated r)
                                       \<lparr>n_goals := n_goals (updated r) + 1\<rparr>\<rparr>))
       else Inr (\<sigma>, r)) = Inr (\<sigma>a, ra) \<and>
      writesUntilFailure \<sigma>a = None \<and> projects \<sigma>a = projects \<sigma> \<and> tasks \<sigma>a = tasks \<sigma> \<and>
      list_all2 (goalAfter pid (pre @ [cg])) (goals s) (goals \<sigma>a) \<and>
      created ra = created r \<and> n_projects (updated ra) = n_projects (updated r) \<and>
      n_tasks (updated ra) = n_tasks (updated r) \<and>
      (g_name g0 = cg_name cg \<longrightarrow> n_goals (updated ra) = n_goals (updated r))"
  proof (cases "g_name g0 = cg_name cg")
    case True
    have g': "list_all2 (goalAfter pid (pre @ [cg])) (goals s) (goals \<sigma>)"
      using relG
    proof (rule list.rel_mono_strong)
      fix g g1 assume m: "g \<in> set (goals s)" and a: "goalAfter pid pre g g1"
      show "goalAfter pid (pre @ [cg]) g g1"
      proof (cases "goalHit pid cg g")
        case True
        then have "g = g0" using only[OF m] hit_id by simp
        with a g0(2) fresh \<open>g_name g0 = cg_name cg\<close> show ?thesis
          by (simp add: goalAfter_keep)
      next
        case False
        with a show ?thesis by (rule goalAfter_skip)
      qed
    qed
    show ?thesis
      apply (rule exI[of _ \<sigma>], rule exI[of _ r])
      using True ok g' by simp
  next
    case False
    have "gid \<in> set (map g_id (goals \<sigma>))" unfolding gids using g0(1) g0id by (simp add: image_iff) metis
    then obtain y where "y \<in> set (goals \<sigma>)" "g_id y = gid" by (auto simp: image_iff)
    then obtain q where q: "find (\<lambda>g. g_id g = gid) (goals \<sigma>) = Some q"
      using find_exists[of y "goals \<sigma>" "\<lambda>g. g_id g = gid"] by metis
    let ?u = "fst (now \<sigma>)"
    let ?G = "\<lambda>g. if g_id g = gid then g\<lparr>g_name := cg_name cg, g_updatedAt := ?u\<rparr> else g"
    let ?\<sigma>a = "(snd (now \<sigma>))\<lparr>goals := map ?G (goals \<sigma>)\<rparr>"
    let ?ra = "r\<lparr>updated := (updated r)\<lparr>n_goals := n_goals (updated r) + 1\<rparr>\<rparr>"
    have up: "goal_update gid (\<lambda>g. g\<lparr>g_name := cg_name cg\<rparr>) \<sigma> = Inr ?\<sigma>a"
      using goal_update_ok[OF ok q] by simp
    have relF: "list_all2 (\<lambda>g g1. goalAfter pid (pre @ [cg]) g (?G g1)) (goals s) (goals \<sigma>)"
      using relG
    proof (rule list.rel_mono_strong)
      fix g g1 assume m: "g \<in> set (goals s)" and a: "goalAfter pid pre g g1"
      from goalAfter_D(1)[OF a] have idg: "g_id g1 = g_id g" by (simp add: sameGoalFrame_def)
      show "goalAfter pid (pre @ [cg]) g (?G g1)"
      proof (cases "g_id g = gid")
        case True
        then have "g = g0" using only[OF m] by simp
        with g0(2) have "goalHit pid cg g" by simp
        from goalAfter_write[OF a this fresh] False \<open>g = g0\<close>
        show ?thesis using True idg by simp
      next
        case False
        then have "\<not> goalHit pid cg g" using hit_id by metis
        from goalAfter_skip[OF a this] show ?thesis using False idg by simp
      qed
    qed
    have g': "list_all2 (goalAfter pid (pre @ [cg])) (goals s) (map ?G (goals \<sigma>))"
      using relF by (rule list_all2_map_right)
    show ?thesis
      apply (rule exI[of _ ?\<sigma>a], rule exI[of _ ?ra])
      apply (intro conjI)
              apply (simp add: False up)
             apply (simp add: ok)
            apply simp
           apply simp
      using g' apply simp
         apply simp
        apply simp
       apply simp
      using False apply simp
      done
  qed
  then obtain \<sigma>a ra where
    ns: "(if g_name g0 \<noteq> cg_name cg
       then (case goal_update gid (\<lambda>g. g\<lparr>g_name := cg_name cg\<rparr>) \<sigma> of
               Inl e \<Rightarrow> Inl e
             | Inr s' \<Rightarrow> Inr (s', r\<lparr>updated := (updated r)
                                       \<lparr>n_goals := n_goals (updated r) + 1\<rparr>\<rparr>))
       else Inr (\<sigma>, r)) = Inr (\<sigma>a, ra)"
    and oka: "writesUntilFailure \<sigma>a = None" and pa: "projects \<sigma>a = projects \<sigma>"
    and ta: "tasks \<sigma>a = tasks \<sigma>"
    and ga: "list_all2 (goalAfter pid (pre @ [cg])) (goals s) (goals \<sigma>a)"
    and ca: "created ra = created r" and npa: "n_projects (updated ra) = n_projects (updated r)"
    and nta: "n_tasks (updated ra) = n_tasks (updated r)"
    and nga: "g_name g0 = cg_name cg \<longrightarrow> n_goals (updated ra) = n_goals (updated r)"
    by metis
  have frT: "list_all2 sameTaskFrame (tasks s) (tasks \<sigma>a)"
    unfolding ta using relT by (rule taskAfterGoals_frames)
  have pkTa: "distinct (map t_id (tasks \<sigma>a))"
    using taskFrames_ids[OF frT] pkT by simp
  have stale: "(\<exists>x \<in> set ?st. t_id x = tid) \<longleftrightarrow>
       (\<exists>t \<in> set (tasks \<sigma>a). t_deletedAt t = None \<and> t_goalId t = gid \<and> t_id t = tid)" for tid
  proof -
    have "(\<exists>x \<in> set ?st. t_id x = tid) \<longleftrightarrow>
       (\<exists>t \<in> set (tasks s). t_deletedAt t = None \<and> t_goalId t = gid \<and> t_id t = tid)"
      by auto
    also have "\<dots> \<longleftrightarrow>
       (\<exists>t \<in> set (tasks \<sigma>a). t_deletedAt t = None \<and> t_goalId t = gid \<and> t_id t = tid)"
      by (rule bex_transfer[OF frT]) (simp add: sameTaskFrame_def)
    finally show ?thesis .
  qed
  from taskLoop[OF oka pkTa stale tids, where r = ra]
  obtain \<sigma>b where
    loop: "forEach (syncTask gid ?st) (cg_tasks cg) (\<sigma>a, ra) =
            Inr (\<sigma>b, ra\<lparr>updated := (updated ra)\<lparr>n_tasks := n_tasks (updated ra) +
                    hitCount gid (tasks \<sigma>a) (cg_tasks cg)\<rparr>\<rparr>)"
    and okb: "writesUntilFailure \<sigma>b = None" and pb: "projects \<sigma>b = projects \<sigma>a"
    and gb: "goals \<sigma>b = goals \<sigma>a"
    and tb: "list_all2 (taskAfter gid (cg_tasks cg)) (tasks \<sigma>a) (tasks \<sigma>b)"
    apply (elim exE conjE) apply (rule that) apply assumption+ done
  let ?rb = "ra\<lparr>updated := (updated ra)\<lparr>n_tasks := n_tasks (updated ra) +
                    hitCount gid (tasks \<sigma>a) (cg_tasks cg)\<rparr>\<rparr>"
  have run: "syncGoal pid (snd (includeGoals s p)) cg (\<sigma>, r) = Inr (\<sigma>b, ?rb)"
    using gid sf ns loop by (simp add: syncGoal_def)
  have t': "list_all2 (taskAfterGoals pid (goals s) (pre @ [cg])) (tasks s) (tasks \<sigma>b)"
  proof (rule list_all2_compose[OF relT[folded ta] tb])
    fix t t1 t2 assume "taskAfterGoals pid (goals s) pre t t1" "taskAfter gid (cg_tasks cg) t1 t2"
    then show "taskAfterGoals pid (goals s) (pre @ [cg]) t t2"
      using g0 g0id pkG fresh by (rule taskAfterGoals_loop)
  qed
  have cnt: "goalsHitCount pid (goals s) (tasks s) [cg] = hitCount gid (tasks \<sigma>a) (cg_tasks cg)"
    using True gid hitCount_frame[OF frT, of gid "cg_tasks cg"] by (simp add: goalsHitCount_def)
  have ng: "(\<forall>g \<in> set (goals s). goalHit pid cg g \<longrightarrow> g_name g = cg_name cg)
             \<longrightarrow> n_goals (updated ?rb) = n_goals (updated r)"
  proof
    assume "\<forall>g \<in> set (goals s). goalHit pid cg g \<longrightarrow> g_name g = cg_name cg"
    with g0 have "g_name g0 = cg_name cg" by blast
    with nga show "n_goals (updated ?rb) = n_goals (updated r)" by simp
  qed
  show ?thesis
    apply (rule exI[of _ \<sigma>b], rule exI[of _ ?rb])
    apply (intro conjI)
            apply (rule run)
           apply (rule okb)
          apply (simp add: pb pa)
         apply (simp add: gb ga)
        apply (rule t')
       apply (simp add: ca)
      apply (simp add: npa)
     apply (simp add: nta cnt)
    apply (rule ng)
    done
qed

lemma goalsHitCount_append:
  "goalsHitCount pid GS ts (pre @ cgs) = goalsHitCount pid GS ts pre + goalsHitCount pid GS ts cgs"
  by (simp add: goalsHitCount_def)

lemma goalsHitCount_Nil: "goalsHitCount pid GS ts [] = 0"
  by (simp add: goalsHitCount_def)

lemma goalLoop:
  assumes ok: "writesUntilFailure \<sigma>0 = None"
    and pkG: "distinct (map g_id (goals s))"
    and pkT: "distinct (map t_id (tasks s))"
    and p: "p_id p = pid"
    and g0: "goals \<sigma>0 = goals s" and t0: "tasks \<sigma>0 = tasks s"
    and gidsA: "\<forall>cg \<in> set cgs. presentId (cg_id cg) \<noteq> None"
    and gdist: "distinct (map cg_id cgs)"
    and tidsA: "\<forall>cg \<in> set cgs. \<forall>ct \<in> set (cg_tasks cg). presentId (ct_id ct) \<noteq> None"
  shows "\<exists>\<sigma>' r'. forEach (syncGoal pid (snd (includeGoals s p))) cgs (\<sigma>0, r) = Inr (\<sigma>', r') \<and>
          writesUntilFailure \<sigma>' = None \<and> projects \<sigma>' = projects \<sigma>0 \<and>
          list_all2 (goalAfter pid cgs) (goals s) (goals \<sigma>') \<and>
          list_all2 (taskAfterGoals pid (goals s) cgs) (tasks s) (tasks \<sigma>') \<and>
          created r' = created r \<and>
          n_projects (updated r') = n_projects (updated r) \<and>
          n_tasks (updated r') = n_tasks (updated r) + goalsHitCount pid (goals s) (tasks s) cgs \<and>
          ((\<forall>cg \<in> set cgs. \<forall>g \<in> set (goals s). goalHit pid cg g \<longrightarrow> g_name g = cg_name cg)
             \<longrightarrow> n_goals (updated r') = n_goals (updated r))"
proof -
  have gids: "\<And>cg. cg \<in> set cgs \<Longrightarrow> presentId (cg_id cg) \<noteq> None"
    using gidsA by simp
  define Inv where "Inv = (\<lambda>pre (st :: store \<times> results). \<exists>\<sigma> r'.
      st = (\<sigma>, r') \<and>
      writesUntilFailure \<sigma> = None \<and> projects \<sigma> = projects \<sigma>0 \<and>
      list_all2 (goalAfter pid pre) (goals s) (goals \<sigma>) \<and>
      list_all2 (taskAfterGoals pid (goals s) pre) (tasks s) (tasks \<sigma>) \<and>
      created r' = created r \<and>
      n_projects (updated r') = n_projects (updated r) \<and>
      n_tasks (updated r') = n_tasks (updated r) + goalsHitCount pid (goals s) (tasks s) pre \<and>
      ((\<forall>cg \<in> set pre. \<forall>g \<in> set (goals s). goalHit pid cg g \<longrightarrow> g_name g = cg_name cg)
             \<longrightarrow> n_goals (updated r') = n_goals (updated r)))"
  have init: "Inv [] (\<sigma>0, r)"
    unfolding Inv_def
    apply (rule exI[of _ \<sigma>0], rule exI[of _ r])
    apply (simp add: ok g0 t0 goalsHitCount_Nil)
    apply (rule conjI)
     apply (rule list.rel_refl, rule goalAfter_refl)
    apply (rule list.rel_refl, rule taskAfterGoals_refl)
    done
  have step: "\<exists>st'. syncGoal pid (snd (includeGoals s p)) x st = Inr st' \<and> Inv (pre @ [x]) st'"
    if inv: "Inv pre st" and pos: "\<exists>post. cgs = pre @ x # post" for pre x st
  proof -
    from inv obtain \<sigma> r1 where st: "st = (\<sigma>, r1)"
      and ok1: "writesUntilFailure \<sigma> = None" and p1: "projects \<sigma> = projects \<sigma>0"
      and relG: "list_all2 (goalAfter pid pre) (goals s) (goals \<sigma>)"
      and relT: "list_all2 (taskAfterGoals pid (goals s) pre) (tasks s) (tasks \<sigma>)"
      and c1: "created r1 = created r"
      and np1: "n_projects (updated r1) = n_projects (updated r)"
      and nt1: "n_tasks (updated r1) = n_tasks (updated r) + goalsHitCount pid (goals s) (tasks s) pre"
      and ng1: "(\<forall>cg \<in> set pre. \<forall>g \<in> set (goals s). goalHit pid cg g \<longrightarrow> g_name g = cg_name cg)
             \<longrightarrow> n_goals (updated r1) = n_goals (updated r)"
      unfolding Inv_def
      apply (elim exE conjE) apply (rule that) apply assumption+ done
    from pos obtain post where cgs: "cgs = pre @ x # post" by metis
    then have xin: "x \<in> set cgs" by simp
    from gids[OF xin] obtain gid where gid: "presentId (cg_id x) = Some gid"
      by (cases "presentId (cg_id x)") simp_all
    have fresh: "cg_id c \<noteq> cg_id x" if "c \<in> set pre" for c
      using gdist that unfolding cgs by (auto simp: image_iff)
    from syncGoal_step[OF ok1 pkG pkT p relG relT gid fresh tidsA[THEN bspec, OF xin], where r = r1]
    obtain \<sigma>' r' where run: "syncGoal pid (snd (includeGoals s p)) x (\<sigma>, r1) = Inr (\<sigma>', r')"
      and ok2: "writesUntilFailure \<sigma>' = None" and p2: "projects \<sigma>' = projects \<sigma>"
      and relG': "list_all2 (goalAfter pid (pre @ [x])) (goals s) (goals \<sigma>')"
      and relT': "list_all2 (taskAfterGoals pid (goals s) (pre @ [x])) (tasks s) (tasks \<sigma>')"
      and c2: "created r' = created r1"
      and np2: "n_projects (updated r') = n_projects (updated r1)"
      and nt2: "n_tasks (updated r') = n_tasks (updated r1) + goalsHitCount pid (goals s) (tasks s) [x]"
      and ng2: "(\<forall>g \<in> set (goals s). goalHit pid x g \<longrightarrow> g_name g = cg_name x)
             \<longrightarrow> n_goals (updated r') = n_goals (updated r1)"
      apply simp apply (elim exE conjE) apply (rule that) apply assumption+ done
    have ng: "(\<forall>cg \<in> set (pre @ [x]). \<forall>g \<in> set (goals s). goalHit pid cg g \<longrightarrow> g_name g = cg_name cg)
             \<longrightarrow> n_goals (updated r') = n_goals (updated r)"
      using ng1 ng2 by simp
    have "Inv (pre @ [x]) (\<sigma>', r')"
      unfolding Inv_def
      apply (rule exI[of _ \<sigma>'], rule exI[of _ r'])
      apply (intro conjI)
              apply (rule refl)
             apply (rule ok2)
            apply (simp add: p2 p1)
           apply (rule relG')
          apply (rule relT')
         apply (simp add: c2 c1)
        apply (simp add: np2 np1)
       apply (simp add: nt2 nt1 goalsHitCount_append)
      apply (rule ng)
      done
    with run st show ?thesis by metis
  qed
  from forEach_invariant[of Inv cgs "syncGoal pid (snd (includeGoals s p))" "(\<sigma>0, r)", OF step init]
  obtain st' where "forEach (syncGoal pid (snd (includeGoals s p))) cgs (\<sigma>0, r) = Inr st'" "Inv cgs st'"
    by metis
  then show ?thesis unfolding Inv_def by metis
qed

lemma projAfter_refl: "projAfter [] p p"
  by (simp add: projAfter_def sameProjectFrame_def)

lemma goalAfterAll_refl: "goalAfterAll PS [] g g"
  by (simp add: goalAfterAll_def sameGoalFrame_def)

lemma taskAfterAll_refl: "taskAfterAll PS GS [] t t"
  by (simp add: taskAfterAll_def sameTaskFrame_def)

lemma projAfter_D:
  assumes "projAfter pre p p1"
  shows "sameProjectFrame p p1"
    and "\<And>c. c \<in> set pre \<Longrightarrow> projectHit c p \<Longrightarrow> p_name p1 = cp_name c"
    and "(\<And>c. c \<in> set pre \<Longrightarrow> projectHit c p \<Longrightarrow> p_name p = cp_name c) \<Longrightarrow> p1 = p"
  using assms unfolding projAfter_def by simp_all

lemma projAfter_I:
  assumes "sameProjectFrame p p1"
    and "\<And>c. c \<in> set pre \<Longrightarrow> projectHit c p \<Longrightarrow> p_name p1 = cp_name c"
    and "(\<And>c. c \<in> set pre \<Longrightarrow> projectHit c p \<Longrightarrow> p_name p = cp_name c) \<Longrightarrow> p1 = p"
  shows "projAfter pre p p1"
  unfolding projAfter_def using assms by simp

lemma goalAfterAll_D:
  assumes "goalAfterAll PS pre g g1"
  shows "sameGoalFrame g g1"
    and "\<And>c cg. c \<in> set pre \<Longrightarrow> cg \<in> set (cp_goals c) \<Longrightarrow> projectGoalHit PS c cg g
            \<Longrightarrow> g_name g1 = cg_name cg"
    and "(\<And>c cg. c \<in> set pre \<Longrightarrow> cg \<in> set (cp_goals c) \<Longrightarrow> projectGoalHit PS c cg g
            \<Longrightarrow> g_name g = cg_name cg) \<Longrightarrow> g1 = g"
  using assms unfolding goalAfterAll_def by simp_all

lemma goalAfterAll_I:
  assumes "sameGoalFrame g g1"
    and "\<And>c cg. c \<in> set pre \<Longrightarrow> cg \<in> set (cp_goals c) \<Longrightarrow> projectGoalHit PS c cg g
            \<Longrightarrow> g_name g1 = cg_name cg"
    and "(\<And>c cg. c \<in> set pre \<Longrightarrow> cg \<in> set (cp_goals c) \<Longrightarrow> projectGoalHit PS c cg g
            \<Longrightarrow> g_name g = cg_name cg) \<Longrightarrow> g1 = g"
  shows "goalAfterAll PS pre g g1"
  unfolding goalAfterAll_def using assms by simp

lemma taskAfterAll_D:
  assumes "taskAfterAll PS GS pre t t1"
  shows "sameTaskFrame t t1"
    and "\<And>c cg. c \<in> set pre \<Longrightarrow> cg \<in> set (cp_goals c) \<Longrightarrow> projectCovers PS GS c cg t
            \<Longrightarrow> taskAfter (t_goalId t) (cg_tasks cg) t t1"
    and "(\<And>c cg. c \<in> set pre \<Longrightarrow> cg \<in> set (cp_goals c) \<Longrightarrow> \<not> projectCovers PS GS c cg t)
            \<Longrightarrow> t1 = t"
  using assms unfolding taskAfterAll_def by simp_all

lemma taskAfterAll_I:
  assumes "sameTaskFrame t t1"
    and "\<And>c cg. c \<in> set pre \<Longrightarrow> cg \<in> set (cp_goals c) \<Longrightarrow> projectCovers PS GS c cg t
            \<Longrightarrow> taskAfter (t_goalId t) (cg_tasks cg) t t1"
    and "(\<And>c cg. c \<in> set pre \<Longrightarrow> cg \<in> set (cp_goals c) \<Longrightarrow> \<not> projectCovers PS GS c cg t)
            \<Longrightarrow> t1 = t"
  shows "taskAfterAll PS GS pre t t1"
  unfolding taskAfterAll_def using assms by simp

lemma projectHit_same_id:
  assumes "projectHit c p" "projectHit c' p"
  shows "cp_id c = cp_id c'"
proof -
  from assms have "presentId (cp_id c) = Some (p_id p)" "presentId (cp_id c') = Some (p_id p)"
    by (simp_all add: projectHit_def)
  then show ?thesis using presentId_Some by metis
qed

lemma presentId_inj: "presentId a = Some i \<Longrightarrow> presentId b = Some i \<Longrightarrow> a = b"
  using presentId_Some by metis

lemma projectHit_frame: "sameProjectFrame p p1 \<Longrightarrow> projectHit c p1 = projectHit c p"
  by (simp add: projectHit_def sameProjectFrame_def)

lemma sameProjectFrame_trans:
  "sameProjectFrame a b \<Longrightarrow> sameProjectFrame b c \<Longrightarrow> sameProjectFrame a c"
  by (simp add: sameProjectFrame_def)

lemma projAfter_skip:
  assumes r: "projAfter pre p p1" and nohit: "\<not> projectHit cp p"
  shows "projAfter (pre @ [cp]) p p1"
proof (rule projAfter_I)
  show "sameProjectFrame p p1" using r by (rule projAfter_D(1))
next
  fix c assume "c \<in> set (pre @ [cp])" "projectHit c p"
  then have p: "c \<in> set pre" and h: "projectHit c p" using nohit by auto
  show "p_name p1 = cp_name c" by (rule projAfter_D(2)[OF r p h])
next
  assume "\<And>c. c \<in> set (pre @ [cp]) \<Longrightarrow> projectHit c p \<Longrightarrow> p_name p = cp_name c"
  then have "\<And>c. c \<in> set pre \<Longrightarrow> projectHit c p \<Longrightarrow> p_name p = cp_name c" by simp
  then show "p1 = p" by (rule projAfter_D(3)[OF r])
qed

lemma projAfter_untouched:
  assumes r: "projAfter pre p p1" and hit: "projectHit cp p"
    and fresh: "\<And>c. c \<in> set pre \<Longrightarrow> cp_id c \<noteq> cp_id cp"
  shows "p1 = p"
proof (rule projAfter_D(3)[OF r])
  fix c assume "c \<in> set pre" "projectHit c p"
  with projectHit_same_id[OF this(2) hit] fresh show "p_name p = cp_name c" by metis
qed

lemma projAfter_keep:
  assumes r: "projAfter pre p p1" and hit: "projectHit cp p"
    and fresh: "\<And>c. c \<in> set pre \<Longrightarrow> cp_id c \<noteq> cp_id cp"
    and same: "p_name p = cp_name cp"
  shows "projAfter (pre @ [cp]) p p1"
proof -
  have e: "p1 = p" using r hit fresh by (rule projAfter_untouched)
  show ?thesis
  proof (rule projAfter_I)
    show "sameProjectFrame p p1" using r by (rule projAfter_D(1))
  next
    fix c assume c: "c \<in> set (pre @ [cp])" "projectHit c p"
    have "c = cp"
    proof (rule ccontr)
      assume "c \<noteq> cp"
      with c(1) have "c \<in> set pre" by simp
      from fresh[OF this] projectHit_same_id[OF c(2) hit] show False by simp
    qed
    then show "p_name p1 = cp_name c" using e same by simp
  next
    show "p1 = p" by (rule e)
  qed
qed

lemma projAfter_write:
  assumes r: "projAfter pre p p1" and hit: "projectHit cp p"
    and fresh: "\<And>c. c \<in> set pre \<Longrightarrow> cp_id c \<noteq> cp_id cp"
    and differ: "p_name p \<noteq> cp_name cp"
  shows "projAfter (pre @ [cp]) p (p1\<lparr>p_name := cp_name cp, p_updatedAt := u\<rparr>)"
proof (rule projAfter_I)
  have "sameProjectFrame p p1" using r by (rule projAfter_D(1))
  then show "sameProjectFrame p (p1\<lparr>p_name := cp_name cp, p_updatedAt := u\<rparr>)"
    by (simp add: sameProjectFrame_def)
next
  fix c assume c: "c \<in> set (pre @ [cp])" "projectHit c p"
  have "c = cp"
  proof (rule ccontr)
    assume "c \<noteq> cp"
    with c(1) have "c \<in> set pre" by simp
    from fresh[OF this] projectHit_same_id[OF c(2) hit] show False by simp
  qed
  then show "p_name (p1\<lparr>p_name := cp_name cp, p_updatedAt := u\<rparr>) = cp_name c" by simp
next
  assume "\<And>c. c \<in> set (pre @ [cp]) \<Longrightarrow> projectHit c p \<Longrightarrow> p_name p = cp_name c"
  from this[of cp] hit differ have False by simp
  then show "p1\<lparr>p_name := cp_name cp, p_updatedAt := u\<rparr> = p" ..
qed

text \<open>A client project whose id is not in the table touches no goal and no task.\<close>

lemma goalAfterAll_skip:
  assumes r: "goalAfterAll PS pre g g1"
    and nohit: "\<And>p. p \<in> set PS \<Longrightarrow> \<not> projectHit cp p"
  shows "goalAfterAll PS (pre @ [cp]) g g1"
proof (rule goalAfterAll_I)
  show "sameGoalFrame g g1" using r by (rule goalAfterAll_D(1))
next
  have no: "\<not> projectGoalHit PS cp cg g" for cg
    using nohit unfolding projectGoalHit_def by blast
  {
    fix c cg assume c: "c \<in> set (pre @ [cp])" "cg \<in> set (cp_goals c)" "projectGoalHit PS c cg g"
    have "c \<noteq> cp" using c(3) no by metis
    with c(1) have "c \<in> set pre" by simp
    from goalAfterAll_D(2)[OF r this c(2,3)] show "g_name g1 = cg_name cg" .
  }
  assume a: "\<And>c cg. c \<in> set (pre @ [cp]) \<Longrightarrow> cg \<in> set (cp_goals c)
               \<Longrightarrow> projectGoalHit PS c cg g \<Longrightarrow> g_name g = cg_name cg"
  show "g1 = g"
  proof (rule goalAfterAll_D(3)[OF r])
    fix c cg assume "c \<in> set pre" "cg \<in> set (cp_goals c)" "projectGoalHit PS c cg g"
    then show "g_name g = cg_name cg" using a[of c cg] by simp
  qed
qed

lemma taskAfterAll_skip:
  assumes r: "taskAfterAll PS GS pre t t1"
    and nohit: "\<And>p. p \<in> set PS \<Longrightarrow> \<not> projectHit cp p"
  shows "taskAfterAll PS GS (pre @ [cp]) t t1"
proof (rule taskAfterAll_I)
  show "sameTaskFrame t t1" using r by (rule taskAfterAll_D(1))
next
  have no: "\<not> projectCovers PS GS cp cg t" for cg
    using nohit unfolding projectCovers_def by blast
  {
    fix c cg assume c: "c \<in> set (pre @ [cp])" "cg \<in> set (cp_goals c)"
      "projectCovers PS GS c cg t"
    have "c \<noteq> cp" using c(3) no by metis
    with c(1) have "c \<in> set pre" by simp
    from taskAfterAll_D(2)[OF r this c(2,3)]
    show "taskAfter (t_goalId t) (cg_tasks cg) t t1" .
  }
  assume a: "\<And>c cg. c \<in> set (pre @ [cp]) \<Longrightarrow> cg \<in> set (cp_goals c)
               \<Longrightarrow> \<not> projectCovers PS GS c cg t"
  show "t1 = t"
  proof (rule taskAfterAll_D(3)[OF r])
    fix c cg assume "c \<in> set pre" "cg \<in> set (cp_goals c)"
    then show "\<not> projectCovers PS GS c cg t" using a[of c cg] by simp
  qed
qed

text \<open>Chains through the client project \<open>cp\<close> and through an earlier one.\<close>

lemma projectGoalHit_D:
  assumes "projectGoalHit PS cp cg g" "presentId (cp_id cp) = Some pid"
  shows "goalHit pid cg g"
  using assms unfolding projectGoalHit_def projectHit_def by auto

lemma projectGoalHit_I:
  assumes "p0 \<in> set PS" "p_id p0 = pid" "presentId (cp_id cp) = Some pid" "goalHit pid cg g"
  shows "projectGoalHit PS cp cg g"
  unfolding projectGoalHit_def projectHit_def using assms by (intro bexI[of _ p0]) simp_all

lemma projectGoalHit_other:
  assumes h: "projectGoalHit PS c cg g" and pid: "presentId (cp_id cp) = Some pid"
    and ne: "cp_id c \<noteq> cp_id cp"
  shows "g_projectId g \<noteq> pid"
proof
  assume e: "g_projectId g = pid"
  from h obtain p :: project where "presentId (cp_id c) = Some (p_id p)" "goalHit (p_id p) cg g"
    unfolding projectGoalHit_def projectHit_def by blast
  then have "presentId (cp_id c) = Some pid" using e by (simp add: goalHit_def)
  from presentId_inj[OF this pid] ne show False by simp
qed

lemma projectCovers_D:
  assumes "projectCovers PS GS cp cg t" "presentId (cp_id cp) = Some pid"
  shows "goalCovers pid GS cg t"
  using assms unfolding projectCovers_def projectHit_def by auto

lemma projectCovers_I:
  assumes "p0 \<in> set PS" "p_id p0 = pid" "presentId (cp_id cp) = Some pid"
    "goalCovers pid GS cg t"
  shows "projectCovers PS GS cp cg t"
  unfolding projectCovers_def projectHit_def using assms by (intro bexI[of _ p0]) simp_all

lemma goalAfterAll_loop:
  assumes a: "goalAfterAll PS pre g g1"
    and b: "goalAfter pid (cp_goals cp) g1 g2"
    and p0: "p0 \<in> set PS" "p_id p0 = pid"
    and pid: "presentId (cp_id cp) = Some pid"
    and fresh: "\<And>c. c \<in> set pre \<Longrightarrow> cp_id c \<noteq> cp_id cp"
  shows "goalAfterAll PS (pre @ [cp]) g g2"
proof -
  have f1: "sameGoalFrame g g1" using a by (rule goalAfterAll_D(1))
  have f2: "sameGoalFrame g1 g2" using b by (rule goalAfter_D(1))
  have hit_eq: "goalHit pid cg g1 = goalHit pid cg g" for cg using f1 by (rule goalHit_frame)
  show ?thesis
  proof (rule goalAfterAll_I)
    show "sameGoalFrame g g2" using f1 f2 by (rule sameGoalFrame_trans)
  next
    fix c cg assume c: "c \<in> set (pre @ [cp])" "cg \<in> set (cp_goals c)" "projectGoalHit PS c cg g"
    show "g_name g2 = cg_name cg"
    proof (cases "c = cp")
      case True
      with c have "cg \<in> set (cp_goals cp)" "goalHit pid cg g1"
        using projectGoalHit_D[OF _ pid] hit_eq by simp_all
      then show ?thesis by (rule goalAfter_D(2)[OF b])
    next
      case False
      with c(1) have p: "c \<in> set pre" by simp
      have other: "g_projectId g \<noteq> pid" using c(3) pid fresh[OF p] by (rule projectGoalHit_other)
      have "g2 = g1"
      proof (rule goalAfter_D(3)[OF b])
        fix c' assume "c' \<in> set (cp_goals cp)" "goalHit pid c' g1"
        then have "goalHit pid c' g" using hit_eq by simp
        with other have False by (simp add: goalHit_def)
        then show "g_name g1 = cg_name c'" ..
      qed
      with goalAfterAll_D(2)[OF a p c(2,3)] show ?thesis by simp
    qed
  next
    assume n: "\<And>c cg. c \<in> set (pre @ [cp]) \<Longrightarrow> cg \<in> set (cp_goals c)
                 \<Longrightarrow> projectGoalHit PS c cg g \<Longrightarrow> g_name g = cg_name cg"
    have e1: "g1 = g"
    proof (rule goalAfterAll_D(3)[OF a])
      fix c cg assume "c \<in> set pre" "cg \<in> set (cp_goals c)" "projectGoalHit PS c cg g"
      then show "g_name g = cg_name cg" using n[of c cg] by simp
    qed
    have "g2 = g1"
    proof (rule goalAfter_D(3)[OF b])
      fix c' assume c': "c' \<in> set (cp_goals cp)" "goalHit pid c' g1"
      then have "goalHit pid c' g" using hit_eq by simp
      with p0 pid have "projectGoalHit PS cp c' g" by (rule projectGoalHit_I)
      with n[of cp c'] c'(1) show "g_name g1 = cg_name c'" using e1 by simp
    qed
    with e1 show "g2 = g" by simp
  qed
qed

lemma goalCovers_frames:
  assumes gs: "list_all2 sameGoalFrame GS GS1" and t: "sameTaskFrame t t1"
  shows "goalCovers pid GS1 cg t1 = goalCovers pid GS cg t"
proof -
  have gt: "t_goalId t1 = t_goalId t" using t by (simp add: sameTaskFrame_def)
  have "(\<exists>g \<in> set GS. goalHit pid cg g \<and> g_id g = t_goalId t)
      = (\<exists>g \<in> set GS1. goalHit pid cg g \<and> g_id g = t_goalId t1)"
  proof (rule bex_transfer[OF gs])
    fix x y assume f: "sameGoalFrame x y"
    then have "g_id y = g_id x" by (simp add: sameGoalFrame_def)
    then show "(goalHit pid cg x \<and> g_id x = t_goalId t) = (goalHit pid cg y \<and> g_id y = t_goalId t1)"
      using goalHit_frame[OF f] gt by simp
  qed
  then show ?thesis unfolding goalCovers_def by simp
qed

lemma taskAfterAll_loop:
  assumes a: "taskAfterAll PS GS pre t t1"
    and b: "taskAfterGoals pid GS1 (cp_goals cp) t1 t2"
    and gs: "list_all2 sameGoalFrame GS GS1"
    and p0: "p0 \<in> set PS" "p_id p0 = pid"
    and pid: "presentId (cp_id cp) = Some pid"
    and pk: "distinct (map g_id GS)"
    and fresh: "\<And>c. c \<in> set pre \<Longrightarrow> cp_id c \<noteq> cp_id cp"
  shows "taskAfterAll PS GS (pre @ [cp]) t t2"
proof -
  have f1: "sameTaskFrame t t1" using a by (rule taskAfterAll_D(1))
  have f2: "sameTaskFrame t1 t2" using b by (rule taskAfterGoals_D(1))
  have gt1: "t_goalId t1 = t_goalId t" using f1 by (simp add: sameTaskFrame_def)
  have cov_eq: "goalCovers pid GS1 cg t1 = goalCovers pid GS cg t" for cg
    using gs f1 by (rule goalCovers_frames)
  have via_pre: "\<not> goalCovers pid GS cg' t"
    if c: "c \<in> set pre" "projectCovers PS GS c cg t" for c cg cg'
  proof
    assume h: "goalCovers pid GS cg' t"
    then obtain g' where g': "g' \<in> set GS" "goalHit pid cg' g'" "g_id g' = t_goalId t"
      unfolding goalCovers_def by blast
    from c(2) obtain p :: project where p: "presentId (cp_id c) = Some (p_id p)"
      "goalCovers (p_id p) GS cg t"
      unfolding projectCovers_def projectHit_def by blast
    from p(2) obtain g where g: "g \<in> set GS" "goalHit (p_id p) cg g" "g_id g = t_goalId t"
      unfolding goalCovers_def by blast
    from g(3) g'(3) have "g_id g = g_id g'" by simp
    with pk g(1) g'(1) have "g = g'" by (rule distinct_map_eq)
    with g(2) g'(2) have "p_id p = pid" by (simp add: goalHit_def)
    with p(1) have "presentId (cp_id c) = Some pid" by simp
    from presentId_inj[OF this pid] fresh[OF c(1)] show False by simp
  qed
  show ?thesis
  proof (cases "\<exists>cg \<in> set (cp_goals cp). goalCovers pid GS cg t")
    case True
    then obtain cg0 where cg0: "cg0 \<in> set (cp_goals cp)" "goalCovers pid GS cg0 t" by blast
    have e1: "t1 = t"
    proof (rule taskAfterAll_D(3)[OF a])
      fix c cg assume "c \<in> set pre" "cg \<in> set (cp_goals c)"
      then show "\<not> projectCovers PS GS c cg t" using via_pre[of c cg cg0] cg0(2) by metis
    qed
    show ?thesis
    proof (rule taskAfterAll_I)
      show "sameTaskFrame t t2" using f1 f2 by (rule sameTaskFrame_trans)
    next
      fix c cg assume c: "c \<in> set (pre @ [cp])" "cg \<in> set (cp_goals c)"
        "projectCovers PS GS c cg t"
      have "c = cp"
      proof (rule ccontr)
        assume "c \<noteq> cp"
        with c(1) have "c \<in> set pre" by simp
        from via_pre[OF this c(3)] cg0(2) show False by simp
      qed
      with c have m: "cg \<in> set (cp_goals cp)" and "goalCovers pid GS1 cg t1"
        using projectCovers_D[OF _ pid] cov_eq by simp_all
      from taskAfterGoals_D(2)[OF b this] show "taskAfter (t_goalId t) (cg_tasks cg) t t2"
        using e1 by simp
    next
      assume n: "\<And>c cg. c \<in> set (pre @ [cp]) \<Longrightarrow> cg \<in> set (cp_goals c)
                 \<Longrightarrow> \<not> projectCovers PS GS c cg t"
      have "projectCovers PS GS cp cg0 t" using p0 pid cg0(2) by (rule projectCovers_I)
      with n[of cp cg0] cg0(1) have False by simp
      then show "t2 = t" ..
    qed
  next
    case False
    have e2: "t2 = t1"
    proof (rule taskAfterGoals_D(3)[OF b])
      fix c' assume "c' \<in> set (cp_goals cp)"
      then show "\<not> goalCovers pid GS1 c' t1" using False cov_eq by simp
    qed
    show ?thesis
    proof (rule taskAfterAll_I)
      show "sameTaskFrame t t2" using f1 f2 by (rule sameTaskFrame_trans)
    next
      fix c cg assume c: "c \<in> set (pre @ [cp])" "cg \<in> set (cp_goals c)"
        "projectCovers PS GS c cg t"
      have "c \<noteq> cp"
      proof
        assume "c = cp"
        with c have "cg \<in> set (cp_goals cp)" "goalCovers pid GS cg t"
          using projectCovers_D[OF _ pid] by simp_all
        with False show False by blast
      qed
      with c(1) have "c \<in> set pre" by simp
      from taskAfterAll_D(2)[OF a this c(2,3)] e2
      show "taskAfter (t_goalId t) (cg_tasks cg) t t2" by simp
    next
      assume n: "\<And>c cg. c \<in> set (pre @ [cp]) \<Longrightarrow> cg \<in> set (cp_goals c)
                 \<Longrightarrow> \<not> projectCovers PS GS c cg t"
      have "t1 = t"
      proof (rule taskAfterAll_D(3)[OF a])
        fix c cg assume "c \<in> set pre" "cg \<in> set (cp_goals c)"
        then show "\<not> projectCovers PS GS c cg t" using n[of c cg] by simp
      qed
      with e2 show "t2 = t" by simp
    qed
  qed
qed

lemma list_all2_setD1: "list_all2 R xs ys \<Longrightarrow> x \<in> set xs \<Longrightarrow> \<exists>y \<in> set ys. R x y"
  by (induction rule: list_all2_induct) auto

lemma list_all2_setD2: "list_all2 R xs ys \<Longrightarrow> y \<in> set ys \<Longrightarrow> \<exists>x \<in> set xs. R x y"
  by (induction rule: list_all2_induct) auto

lemma projAfter_frames:
  "list_all2 (projAfter pre) xs ys \<Longrightarrow> list_all2 sameProjectFrame xs ys"
  by (erule list_all2_mono) (rule projAfter_D(1))

lemma goalAfterAll_frames:
  "list_all2 (goalAfterAll PS pre) xs ys \<Longrightarrow> list_all2 sameGoalFrame xs ys"
  by (erule list_all2_mono) (rule goalAfterAll_D(1))

lemma taskAfterAll_frames:
  "list_all2 (taskAfterAll PS GS pre) xs ys \<Longrightarrow> list_all2 sameTaskFrame xs ys"
  by (erule list_all2_mono) (rule taskAfterAll_D(1))

lemma projFrames_ids: "list_all2 sameProjectFrame xs ys \<Longrightarrow> map p_id ys = map p_id xs"
  by (induction rule: list_all2_induct) (simp_all add: sameProjectFrame_def)

lemma goalsHitCount_frames:
  assumes gs: "list_all2 sameGoalFrame GS GS1" and ts: "list_all2 sameTaskFrame TS TS1"
  shows "goalsHitCount pid GS1 TS1 cgs = goalsHitCount pid GS TS cgs"
proof -
  have a: "(\<exists>g \<in> set GS1. goalHit pid cg g) = (\<exists>g \<in> set GS. goalHit pid cg g)" for cg
    by (rule bex_transfer[OF gs, symmetric]) (simp add: goalHit_frame)
  have b: "hitCount gid TS1 cts = hitCount gid TS cts" for gid cts
    using ts by (rule hitCount_frame)
  show ?thesis unfolding goalsHitCount_def by (simp add: a b cong: option.case_cong if_cong)
qed

lemma projectsHitCount_append:
  "projectsHitCount PS GS ts (pre @ cps) =
     projectsHitCount PS GS ts pre + projectsHitCount PS GS ts cps"
  by (simp add: projectsHitCount_def)

lemma projectsHitCount_Nil: "projectsHitCount PS GS ts [] = 0"
  by (simp add: projectsHitCount_def)

lemma syncProject_step:
  assumes ok: "writesUntilFailure \<sigma> = None"
    and pkP: "distinct (map p_id (projects s))"
    and pkG: "distinct (map g_id (goals s))"
    and pkT: "distinct (map t_id (tasks s))"
    and relP: "list_all2 (projAfter pre) (projects s) (projects \<sigma>)"
    and relG: "list_all2 (goalAfterAll (projects s) pre) (goals s) (goals \<sigma>)"
    and relT: "list_all2 (taskAfterAll (projects s) (goals s) pre) (tasks s) (tasks \<sigma>)"
    and pid: "presentId (cp_id cp) = Some pid"
    and fresh: "\<And>c. c \<in> set pre \<Longrightarrow> cp_id c \<noteq> cp_id cp"
    and gids: "\<forall>cg \<in> set (cp_goals cp). presentId (cg_id cg) \<noteq> None"
    and gdist: "distinct (map cg_id (cp_goals cp))"
    and tids: "\<forall>cg \<in> set (cp_goals cp). \<forall>ct \<in> set (cg_tasks cg). presentId (ct_id ct) \<noteq> None"
  shows "\<exists>\<sigma>' r'. syncProject cp (\<sigma>, r) = Inr (\<sigma>', r') \<and>
          writesUntilFailure \<sigma>' = None \<and>
          list_all2 (projAfter (pre @ [cp])) (projects s) (projects \<sigma>') \<and>
          list_all2 (goalAfterAll (projects s) (pre @ [cp])) (goals s) (goals \<sigma>') \<and>
          list_all2 (taskAfterAll (projects s) (goals s) (pre @ [cp])) (tasks s) (tasks \<sigma>') \<and>
          created r' = created r \<and>
          n_tasks (updated r') =
            n_tasks (updated r) + projectsHitCount (projects s) (goals s) (tasks s) [cp] \<and>
          ((\<forall>p \<in> set (projects s). projectHit cp p \<longrightarrow> p_name p = cp_name cp)
             \<longrightarrow> n_projects (updated r') = n_projects (updated r)) \<and>
          ((\<forall>cg \<in> set (cp_goals cp). \<forall>g \<in> set (goals s).
               projectGoalHit (projects s) cp cg g \<longrightarrow> g_name g = cg_name cg)
             \<longrightarrow> n_goals (updated r') = n_goals (updated r))"
proof (cases "\<exists>p \<in> set (projects s). p_id p = pid")
  case False
  then have noid: "\<And>p. p \<in> set (projects s) \<Longrightarrow> p_id p \<noteq> pid" by blast
  have nohit: "\<not> projectHit cp p" if "p \<in> set (projects s)" for p
    using noid[OF that] pid by (simp add: projectHit_def)
  have ids: "map p_id (projects \<sigma>) = map p_id (projects s)"
    using projAfter_frames[OF relP] by (rule projFrames_ids)
  have nf: "find (\<lambda>p. p_id p = pid) (projects \<sigma>) = None"
  proof (rule find_noneI)
    fix x assume "x \<in> set (projects \<sigma>)"
    then have "p_id x \<in> set (map p_id (projects s))" unfolding ids[symmetric] by simp
    then obtain y where "y \<in> set (projects s)" "p_id y = p_id x" by (auto simp: image_iff)
    with noid[of y] show "\<not> p_id x = pid" by simp
  qed
  have run: "syncProject cp (\<sigma>, r) = Inr (\<sigma>, r)"
    using pid nf by (simp add: syncProject_def project_findUnique_def)
  have p': "list_all2 (projAfter (pre @ [cp])) (projects s) (projects \<sigma>)"
    using relP
  proof (rule list.rel_mono_strong)
    fix p p1 assume "p \<in> set (projects s)" "projAfter pre p p1"
    then show "projAfter (pre @ [cp]) p p1" using nohit by (simp add: projAfter_skip)
  qed
  have g': "list_all2 (goalAfterAll (projects s) (pre @ [cp])) (goals s) (goals \<sigma>)"
    using relG
  proof (rule list.rel_mono_strong)
    fix g g1 assume "goalAfterAll (projects s) pre g g1"
    then show "goalAfterAll (projects s) (pre @ [cp]) g g1"
      using nohit by (rule goalAfterAll_skip)
  qed
  have t': "list_all2 (taskAfterAll (projects s) (goals s) (pre @ [cp])) (tasks s) (tasks \<sigma>)"
    using relT
  proof (rule list.rel_mono_strong)
    fix t t1 assume "taskAfterAll (projects s) (goals s) pre t t1"
    then show "taskAfterAll (projects s) (goals s) (pre @ [cp]) t t1"
      using nohit by (rule taskAfterAll_skip)
  qed
  have cnt: "projectsHitCount (projects s) (goals s) (tasks s) [cp] = 0"
    using False pid by (simp add: projectsHitCount_def)
  show ?thesis
    apply (rule exI[of _ \<sigma>], rule exI[of _ r])
    apply (intro conjI)
            apply (rule run)
           apply (rule ok)
          apply (rule p')
         apply (rule g')
        apply (rule t')
       apply simp
      apply (simp add: cnt)
     apply simp
    apply simp
    done
next
  case True
  then obtain p0 where p0: "p0 \<in> set (projects s)" "p_id p0 = pid" by blast
  have hit0: "projectHit cp p0" using pid p0(2) by (simp add: projectHit_def)
  have only: "p = p0" if "p \<in> set (projects s)" "p_id p = pid" for p
    using pkP that(1) p0(1) by (rule distinct_map_eq) (simp add: that(2) p0(2))
  have hit_id: "p_id p = pid" if "projectHit cp p" for p
    using that pid by (simp add: projectHit_def)
  have frP: "list_all2 sameProjectFrame (projects s) (projects \<sigma>)"
    using relP by (rule projAfter_frames)
  have frG: "list_all2 sameGoalFrame (goals s) (goals \<sigma>)"
    using relG by (rule goalAfterAll_frames)
  have frT: "list_all2 sameTaskFrame (tasks s) (tasks \<sigma>)"
    using relT by (rule taskAfterAll_frames)
  have pkP1: "distinct (map p_id (projects \<sigma>))" using projFrames_ids[OF frP] pkP by simp
  have pkG1: "distinct (map g_id (goals \<sigma>))" using goalFrames_ids[OF frG] pkG by simp
  have pkT1: "distinct (map t_id (tasks \<sigma>))" using taskFrames_ids[OF frT] pkT by simp
  from list_all2_setD1[OF relP p0(1)] obtain p1 where
    p1: "p1 \<in> set (projects \<sigma>)" "projAfter pre p0 p1" by blast
  have "p1 = p0" using p1(2) hit0 fresh by (rule projAfter_untouched)
  with p1(1) have p0in: "p0 \<in> set (projects \<sigma>)" by simp
  have fu: "find (\<lambda>p. p_id p = pid) (projects \<sigma>) = Some p0"
    using pkP1 p0in by (rule find_unique) (simp_all add: p0(2))
  have read: "project_findUnique pid \<sigma> = Some (includeGoals \<sigma> p0)"
    by (simp add: project_findUnique_def fu)
  have fst_read: "fst (includeGoals \<sigma> p0) = p0" by (simp add: includeGoals_def)
  have nameStep: "\<exists>\<sigma>a ra.
      (if p_name p0 \<noteq> cp_name cp
       then (case project_update pid (\<lambda>p. p\<lparr>p_name := cp_name cp\<rparr>) \<sigma> of
               Inl e \<Rightarrow> Inl e
             | Inr s' \<Rightarrow> Inr (s', r\<lparr>updated := (updated r)
                                       \<lparr>n_projects := n_projects (updated r) + 1\<rparr>\<rparr>))
       else Inr (\<sigma>, r)) = Inr (\<sigma>a, ra) \<and>
      writesUntilFailure \<sigma>a = None \<and> goals \<sigma>a = goals \<sigma> \<and> tasks \<sigma>a = tasks \<sigma> \<and>
      list_all2 (projAfter (pre @ [cp])) (projects s) (projects \<sigma>a) \<and>
      created ra = created r \<and> n_goals (updated ra) = n_goals (updated r) \<and>
      n_tasks (updated ra) = n_tasks (updated r) \<and>
      (p_name p0 = cp_name cp \<longrightarrow> n_projects (updated ra) = n_projects (updated r))"
  proof (cases "p_name p0 = cp_name cp")
    case True
    have p': "list_all2 (projAfter (pre @ [cp])) (projects s) (projects \<sigma>)"
      using relP
    proof (rule list.rel_mono_strong)
      fix p p1 assume m: "p \<in> set (projects s)" and a: "projAfter pre p p1"
      show "projAfter (pre @ [cp]) p p1"
      proof (cases "projectHit cp p")
        case True
        then have "p = p0" using only[OF m] hit_id by simp
        with a hit0 fresh \<open>p_name p0 = cp_name cp\<close> show ?thesis
          by (simp add: projAfter_keep)
      next
        case False
        with a show ?thesis by (rule projAfter_skip)
      qed
    qed
    show ?thesis
      apply (rule exI[of _ \<sigma>], rule exI[of _ r])
      using True ok p' by simp
  next
    case False
    let ?u = "fst (now \<sigma>)"
    let ?P = "\<lambda>p. if p_id p = pid then p\<lparr>p_name := cp_name cp, p_updatedAt := ?u\<rparr> else p"
    let ?\<sigma>a = "(snd (now \<sigma>))\<lparr>projects := map ?P (projects \<sigma>)\<rparr>"
    let ?ra = "r\<lparr>updated := (updated r)\<lparr>n_projects := n_projects (updated r) + 1\<rparr>\<rparr>"
    have up: "project_update pid (\<lambda>p. p\<lparr>p_name := cp_name cp\<rparr>) \<sigma> = Inr ?\<sigma>a"
      using project_update_ok[OF ok fu] by simp
    have relF: "list_all2 (\<lambda>p p1. projAfter (pre @ [cp]) p (?P p1)) (projects s) (projects \<sigma>)"
      using relP
    proof (rule list.rel_mono_strong)
      fix p p1 assume m: "p \<in> set (projects s)" and a: "projAfter pre p p1"
      from projAfter_D(1)[OF a] have idp: "p_id p1 = p_id p" by (simp add: sameProjectFrame_def)
      show "projAfter (pre @ [cp]) p (?P p1)"
      proof (cases "p_id p = pid")
        case True
        then have "p = p0" using only[OF m] by simp
        with hit0 have "projectHit cp p" by simp
        from projAfter_write[OF a this fresh] False \<open>p = p0\<close>
        show ?thesis using True idp by simp
      next
        case False
        then have "\<not> projectHit cp p" using hit_id by metis
        from projAfter_skip[OF a this] show ?thesis using False idp by simp
      qed
    qed
    have p': "list_all2 (projAfter (pre @ [cp])) (projects s) (map ?P (projects \<sigma>))"
      using relF by (rule list_all2_map_right)
    show ?thesis
      apply (rule exI[of _ ?\<sigma>a], rule exI[of _ ?ra])
      apply (intro conjI)
              apply (simp add: False up)
             apply (simp add: ok)
            apply simp
           apply simp
      using p' apply simp
         apply simp
        apply simp
       apply simp
      using False apply simp
      done
  qed
  then obtain \<sigma>a ra where
    ns: "(if p_name p0 \<noteq> cp_name cp
       then (case project_update pid (\<lambda>p. p\<lparr>p_name := cp_name cp\<rparr>) \<sigma> of
               Inl e \<Rightarrow> Inl e
             | Inr s' \<Rightarrow> Inr (s', r\<lparr>updated := (updated r)
                                       \<lparr>n_projects := n_projects (updated r) + 1\<rparr>\<rparr>))
       else Inr (\<sigma>, r)) = Inr (\<sigma>a, ra)"
    and oka: "writesUntilFailure \<sigma>a = None" and ga: "goals \<sigma>a = goals \<sigma>"
    and ta: "tasks \<sigma>a = tasks \<sigma>"
    and pa: "list_all2 (projAfter (pre @ [cp])) (projects s) (projects \<sigma>a)"
    and ca: "created ra = created r" and nga: "n_goals (updated ra) = n_goals (updated r)"
    and nta: "n_tasks (updated ra) = n_tasks (updated r)"
    and npa: "p_name p0 = cp_name cp \<longrightarrow> n_projects (updated ra) = n_projects (updated r)"
    by metis
  from goalLoop[OF oka pkG1 pkT1 p0(2) ga ta gids gdist tids, where r = ra]
  obtain \<sigma>b rb where
    loop: "forEach (syncGoal pid (snd (includeGoals \<sigma> p0))) (cp_goals cp) (\<sigma>a, ra) = Inr (\<sigma>b, rb)"
    and okb: "writesUntilFailure \<sigma>b = None" and pb: "projects \<sigma>b = projects \<sigma>a"
    and gb: "list_all2 (goalAfter pid (cp_goals cp)) (goals \<sigma>) (goals \<sigma>b)"
    and tb: "list_all2 (taskAfterGoals pid (goals \<sigma>) (cp_goals cp)) (tasks \<sigma>) (tasks \<sigma>b)"
    and cb: "created rb = created ra"
    and npb: "n_projects (updated rb) = n_projects (updated ra)"
    and ntb: "n_tasks (updated rb) =
                n_tasks (updated ra) + goalsHitCount pid (goals \<sigma>) (tasks \<sigma>) (cp_goals cp)"
    and ngb: "(\<forall>cg \<in> set (cp_goals cp). \<forall>g \<in> set (goals \<sigma>). goalHit pid cg g
                  \<longrightarrow> g_name g = cg_name cg)
               \<longrightarrow> n_goals (updated rb) = n_goals (updated ra)"
    apply (elim exE conjE) apply (rule that) apply assumption+ done
  have run: "syncProject cp (\<sigma>, r) = Inr (\<sigma>b, rb)"
    using pid read fst_read ns loop by (simp add: syncProject_def)
  have g': "list_all2 (goalAfterAll (projects s) (pre @ [cp])) (goals s) (goals \<sigma>b)"
  proof (rule list_all2_compose[OF relG gb])
    fix g g1 g2 assume "goalAfterAll (projects s) pre g g1" "goalAfter pid (cp_goals cp) g1 g2"
    then show "goalAfterAll (projects s) (pre @ [cp]) g g2"
      using p0 pid fresh by (rule goalAfterAll_loop)
  qed
  have t': "list_all2 (taskAfterAll (projects s) (goals s) (pre @ [cp])) (tasks s) (tasks \<sigma>b)"
  proof (rule list_all2_compose[OF relT tb])
    fix t t1 t2 assume "taskAfterAll (projects s) (goals s) pre t t1"
      "taskAfterGoals pid (goals \<sigma>) (cp_goals cp) t1 t2"
    then show "taskAfterAll (projects s) (goals s) (pre @ [cp]) t t2"
      using frG p0 pid pkG fresh by (rule taskAfterAll_loop)
  qed
  have cnt: "projectsHitCount (projects s) (goals s) (tasks s) [cp] =
               goalsHitCount pid (goals \<sigma>) (tasks \<sigma>) (cp_goals cp)"
    using True pid goalsHitCount_frames[OF frG frT, of pid "cp_goals cp"]
    by (simp add: projectsHitCount_def)
  have np: "(\<forall>p \<in> set (projects s). projectHit cp p \<longrightarrow> p_name p = cp_name cp)
             \<longrightarrow> n_projects (updated rb) = n_projects (updated r)"
  proof
    assume "\<forall>p \<in> set (projects s). projectHit cp p \<longrightarrow> p_name p = cp_name cp"
    with p0(1) hit0 have "p_name p0 = cp_name cp" by blast
    with npa npb show "n_projects (updated rb) = n_projects (updated r)" by simp
  qed
  have ng: "(\<forall>cg \<in> set (cp_goals cp). \<forall>g \<in> set (goals s).
               projectGoalHit (projects s) cp cg g \<longrightarrow> g_name g = cg_name cg)
             \<longrightarrow> n_goals (updated rb) = n_goals (updated r)"
  proof
    assume a: "\<forall>cg \<in> set (cp_goals cp). \<forall>g \<in> set (goals s).
               projectGoalHit (projects s) cp cg g \<longrightarrow> g_name g = cg_name cg"
    have "\<forall>cg \<in> set (cp_goals cp). \<forall>g \<in> set (goals \<sigma>). goalHit pid cg g
                  \<longrightarrow> g_name g = cg_name cg"
    proof (intro ballI impI)
      fix cg g1 assume cg: "cg \<in> set (cp_goals cp)" and g1: "g1 \<in> set (goals \<sigma>)"
        and h: "goalHit pid cg g1"
      from list_all2_setD2[OF relG g1] obtain g where
        g: "g \<in> set (goals s)" "goalAfterAll (projects s) pre g g1" by blast
      have hg: "goalHit pid cg g" using h goalHit_frame[OF goalAfterAll_D(1)[OF g(2)]] by simp
      have pg: "projectGoalHit (projects s) cp cg g" using p0 pid hg by (rule projectGoalHit_I)
      have "g1 = g"
      proof (rule goalAfterAll_D(3)[OF g(2)])
        fix c cg' assume c: "c \<in> set pre" "projectGoalHit (projects s) c cg' g"
        from projectGoalHit_other[OF c(2) pid fresh[OF c(1)]] hg have False
          by (simp add: goalHit_def)
        then show "g_name g = cg_name cg'" ..
      qed
      with a cg g(1) pg show "g_name g1 = cg_name cg" by simp
    qed
    with ngb nga show "n_goals (updated rb) = n_goals (updated r)" by simp
  qed
  show ?thesis
    apply (rule exI[of _ \<sigma>b], rule exI[of _ rb])
    apply (intro conjI)
            apply (rule run)
           apply (rule okb)
          apply (simp add: pb pa)
         apply (rule g')
        apply (rule t')
       apply (simp add: cb ca)
      apply (simp add: ntb nta cnt)
     apply (rule np)
    apply (rule ng)
    done
qed

lemma projectLoop:
  assumes ok: "writesUntilFailure s = None"
    and pkP: "distinct (map p_id (projects s))"
    and pkG: "distinct (map g_id (goals s))"
    and pkT: "distinct (map t_id (tasks s))"
    and pres: "idsPresent cps"
    and dist: "idsDistinct cps"
  shows "\<exists>\<sigma>' r'. forEach syncProject cps (s, r) = Inr (\<sigma>', r') \<and>
          writesUntilFailure \<sigma>' = None \<and>
          list_all2 (projAfter cps) (projects s) (projects \<sigma>') \<and>
          list_all2 (goalAfterAll (projects s) cps) (goals s) (goals \<sigma>') \<and>
          list_all2 (taskAfterAll (projects s) (goals s) cps) (tasks s) (tasks \<sigma>') \<and>
          created r' = created r \<and>
          n_tasks (updated r') =
            n_tasks (updated r) + projectsHitCount (projects s) (goals s) (tasks s) cps \<and>
          ((\<forall>cp \<in> set cps. \<forall>p \<in> set (projects s). projectHit cp p \<longrightarrow> p_name p = cp_name cp)
             \<longrightarrow> n_projects (updated r') = n_projects (updated r)) \<and>
          ((\<forall>cp \<in> set cps. \<forall>cg \<in> set (cp_goals cp). \<forall>g \<in> set (goals s).
               projectGoalHit (projects s) cp cg g \<longrightarrow> g_name g = cg_name cg)
             \<longrightarrow> n_goals (updated r') = n_goals (updated r))"
proof -
  have pres1: "\<forall>cp \<in> set cps. presentId (cp_id cp) \<noteq> None"
    and pres2: "\<forall>cp \<in> set cps. \<forall>cg \<in> set (cp_goals cp). presentId (cg_id cg) \<noteq> None"
    and pres3: "\<forall>cp \<in> set cps. \<forall>cg \<in> set (cp_goals cp). \<forall>ct \<in> set (cg_tasks cg).
          presentId (ct_id ct) \<noteq> None"
    using pres unfolding idsPresent_def by simp_all
  have dist1: "distinct (map cp_id cps)"
    and dist2: "\<forall>cp \<in> set cps. distinct (map cg_id (cp_goals cp))"
    using dist unfolding idsDistinct_def by simp_all
  define Inv where "Inv = (\<lambda>pre (st :: store \<times> results). \<exists>\<sigma> r'.
      st = (\<sigma>, r') \<and>
      writesUntilFailure \<sigma> = None \<and>
      list_all2 (projAfter pre) (projects s) (projects \<sigma>) \<and>
      list_all2 (goalAfterAll (projects s) pre) (goals s) (goals \<sigma>) \<and>
      list_all2 (taskAfterAll (projects s) (goals s) pre) (tasks s) (tasks \<sigma>) \<and>
      created r' = created r \<and>
      n_tasks (updated r') =
        n_tasks (updated r) + projectsHitCount (projects s) (goals s) (tasks s) pre \<and>
      ((\<forall>cp \<in> set pre. \<forall>p \<in> set (projects s). projectHit cp p \<longrightarrow> p_name p = cp_name cp)
         \<longrightarrow> n_projects (updated r') = n_projects (updated r)) \<and>
      ((\<forall>cp \<in> set pre. \<forall>cg \<in> set (cp_goals cp). \<forall>g \<in> set (goals s).
           projectGoalHit (projects s) cp cg g \<longrightarrow> g_name g = cg_name cg)
         \<longrightarrow> n_goals (updated r') = n_goals (updated r)))"
  have init: "Inv [] (s, r)"
    unfolding Inv_def
    apply (rule exI[of _ s], rule exI[of _ r])
    apply (simp add: ok projectsHitCount_Nil)
    apply (intro conjI)
      apply (rule list.rel_refl, rule projAfter_refl)
     apply (rule list.rel_refl, rule goalAfterAll_refl)
    apply (rule list.rel_refl, rule taskAfterAll_refl)
    done
  have step: "\<exists>st'. syncProject x st = Inr st' \<and> Inv (pre @ [x]) st'"
    if inv: "Inv pre st" and pos: "\<exists>post. cps = pre @ x # post" for pre x st
  proof -
    from inv obtain \<sigma> r1 where st: "st = (\<sigma>, r1)"
      and ok1: "writesUntilFailure \<sigma> = None"
      and relP: "list_all2 (projAfter pre) (projects s) (projects \<sigma>)"
      and relG: "list_all2 (goalAfterAll (projects s) pre) (goals s) (goals \<sigma>)"
      and relT: "list_all2 (taskAfterAll (projects s) (goals s) pre) (tasks s) (tasks \<sigma>)"
      and c1: "created r1 = created r"
      and nt1: "n_tasks (updated r1) =
                  n_tasks (updated r) + projectsHitCount (projects s) (goals s) (tasks s) pre"
      and np1: "(\<forall>cp \<in> set pre. \<forall>p \<in> set (projects s). projectHit cp p \<longrightarrow> p_name p = cp_name cp)
                  \<longrightarrow> n_projects (updated r1) = n_projects (updated r)"
      and ng1: "(\<forall>cp \<in> set pre. \<forall>cg \<in> set (cp_goals cp). \<forall>g \<in> set (goals s).
                   projectGoalHit (projects s) cp cg g \<longrightarrow> g_name g = cg_name cg)
                  \<longrightarrow> n_goals (updated r1) = n_goals (updated r)"
      unfolding Inv_def
      apply (elim exE conjE) apply (rule that) apply assumption+ done
    from pos obtain post where cps: "cps = pre @ x # post" by metis
    then have xin: "x \<in> set cps" by simp
    from pres1[THEN bspec, OF xin] obtain pid where pid: "presentId (cp_id x) = Some pid"
      by (cases "presentId (cp_id x)") simp_all
    have fresh: "cp_id c \<noteq> cp_id x" if "c \<in> set pre" for c
      using dist1 that unfolding cps by (auto simp: image_iff)
    have ex: "\<exists>\<sigma>' r'. syncProject x (\<sigma>, r1) = Inr (\<sigma>', r') \<and>
          writesUntilFailure \<sigma>' = None \<and>
          list_all2 (projAfter (pre @ [x])) (projects s) (projects \<sigma>') \<and>
          list_all2 (goalAfterAll (projects s) (pre @ [x])) (goals s) (goals \<sigma>') \<and>
          list_all2 (taskAfterAll (projects s) (goals s) (pre @ [x])) (tasks s) (tasks \<sigma>') \<and>
          created r' = created r1 \<and>
          n_tasks (updated r') =
            n_tasks (updated r1) + projectsHitCount (projects s) (goals s) (tasks s) [x] \<and>
          ((\<forall>p \<in> set (projects s). projectHit x p \<longrightarrow> p_name p = cp_name x)
             \<longrightarrow> n_projects (updated r') = n_projects (updated r1)) \<and>
          ((\<forall>cg \<in> set (cp_goals x). \<forall>g \<in> set (goals s).
               projectGoalHit (projects s) x cg g \<longrightarrow> g_name g = cg_name cg)
             \<longrightarrow> n_goals (updated r') = n_goals (updated r1))"
      using ok1 pkP pkG pkT relP relG relT pid
    proof (rule syncProject_step)
      show "\<And>c. c \<in> set pre \<Longrightarrow> cp_id c \<noteq> cp_id x" by (rule fresh)
      show "\<forall>cg \<in> set (cp_goals x). presentId (cg_id cg) \<noteq> None"
        by (rule pres2[THEN bspec, OF xin])
      show "distinct (map cg_id (cp_goals x))" by (rule dist2[THEN bspec, OF xin])
      show "\<forall>cg \<in> set (cp_goals x). \<forall>ct \<in> set (cg_tasks cg). presentId (ct_id ct) \<noteq> None"
        by (rule pres3[THEN bspec, OF xin])
    qed
    then obtain \<sigma>' r' where run: "syncProject x (\<sigma>, r1) = Inr (\<sigma>', r')"
      and ok2: "writesUntilFailure \<sigma>' = None"
      and relP': "list_all2 (projAfter (pre @ [x])) (projects s) (projects \<sigma>')"
      and relG': "list_all2 (goalAfterAll (projects s) (pre @ [x])) (goals s) (goals \<sigma>')"
      and relT': "list_all2 (taskAfterAll (projects s) (goals s) (pre @ [x])) (tasks s) (tasks \<sigma>')"
      and c2: "created r' = created r1"
      and nt2: "n_tasks (updated r') =
            n_tasks (updated r1) + projectsHitCount (projects s) (goals s) (tasks s) [x]"
      and np2: "(\<forall>p \<in> set (projects s). projectHit x p \<longrightarrow> p_name p = cp_name x)
             \<longrightarrow> n_projects (updated r') = n_projects (updated r1)"
      and ng2: "(\<forall>cg \<in> set (cp_goals x). \<forall>g \<in> set (goals s).
               projectGoalHit (projects s) x cg g \<longrightarrow> g_name g = cg_name cg)
             \<longrightarrow> n_goals (updated r') = n_goals (updated r1)"
      apply (elim exE conjE) apply (rule that) apply assumption+ done
    have np: "(\<forall>cp \<in> set (pre @ [x]). \<forall>p \<in> set (projects s). projectHit cp p
                  \<longrightarrow> p_name p = cp_name cp)
               \<longrightarrow> n_projects (updated r') = n_projects (updated r)"
      using np1 np2 by simp
    have ng: "(\<forall>cp \<in> set (pre @ [x]). \<forall>cg \<in> set (cp_goals cp). \<forall>g \<in> set (goals s).
                   projectGoalHit (projects s) cp cg g \<longrightarrow> g_name g = cg_name cg)
               \<longrightarrow> n_goals (updated r') = n_goals (updated r)"
      using ng1 ng2 by simp
    have "Inv (pre @ [x]) (\<sigma>', r')"
      unfolding Inv_def
      apply (rule exI[of _ \<sigma>'], rule exI[of _ r'])
      apply (intro conjI)
              apply (rule refl)
             apply (rule ok2)
            apply (rule relP')
           apply (rule relG')
          apply (rule relT')
         apply (simp add: c2 c1)
        apply (simp add: nt2 nt1 projectsHitCount_append)
       apply (rule np)
      apply (rule ng)
      done
    with run st show ?thesis by metis
  qed
  from forEach_invariant[of Inv cps syncProject "(s, r)", OF step init]
  obtain st' where "forEach syncProject cps (s, r) = Inr st'" "Inv cps st'"
    by metis
  then show ?thesis unfolding Inv_def by metis
qed

lemma insertBy_map:
  assumes "\<And>a b. sortsBefore cs (f a) (f b) = sortsBefore cs a b"
  shows "map f (insertBy cs x ys) = insertBy cs (f x) (map f ys)"
  by (induction ys) (simp_all add: assms)

lemma orderBy_map:
  assumes "\<And>a b. sortsBefore cs (f a) (f b) = sortsBefore cs a b"
  shows "map f (orderBy cs xs) = orderBy cs (map f xs)"
  unfolding orderBy_def by (induction xs) (simp_all add: insertBy_map[OF assms])

lemma taskListOrder_withoutStamp:
  "sortsBefore taskListOrder (withoutStamp a) (withoutStamp b) = sortsBefore taskListOrder a b"
  by (simp add: taskListOrder_def byKey_def withoutStamp_def)

lemma taskView_withoutStamp:
  "map withoutStamp
     (orderBy taskListOrder (filter (\<lambda>t. t_goalId t = gid \<and> t_deletedAt t = None) ts)) =
   orderBy taskListOrder
     (filter (\<lambda>t. t_goalId t = gid \<and> t_deletedAt t = None) (map withoutStamp ts))"
proof -
  have "filter (\<lambda>t. t_goalId t = gid \<and> t_deletedAt t = None) (map withoutStamp ts) =
        map withoutStamp (filter (\<lambda>t. t_goalId t = gid \<and> t_deletedAt t = None) ts)"
    by (rule filter_map_pres) (simp add: withoutStamp_def)
  then show ?thesis by (simp add: orderBy_map[OF taskListOrder_withoutStamp])
qed

lemma findMany_withoutTaskStamps:
  assumes "projects a = projects b" "goals a = goals b"
    and "map withoutStamp (tasks a) = map withoutStamp (tasks b)"
  shows "withoutTaskStamps (project_findMany a) = withoutTaskStamps (project_findMany b)"
  unfolding project_findMany_def withoutTaskStamps_def
  by (simp add: o_def taskView_withoutStamp assms)

lemma withoutStamp_eq:
  assumes "sameTaskFrame a b" "taskContent b = taskContent a"
  shows "withoutStamp b = withoutStamp a"
  using assms
  by (intro task.equality) (simp_all add: withoutStamp_def sameTaskFrame_def taskContent_def)

lemma list_all2_same:
  "list_all2 R xs ys \<Longrightarrow> (\<And>x y. x \<in> set xs \<Longrightarrow> R x y \<Longrightarrow> f y = f x) \<Longrightarrow> map f ys = map f xs"
  by (induction rule: list_all2_induct) simp_all

lemma projectGoalHit_frames:
  assumes ps: "list_all2 sameProjectFrame PS PS1" and g: "sameGoalFrame g g1"
  shows "projectGoalHit PS1 cp cg g1 = projectGoalHit PS cp cg g"
proof -
  have "(\<exists>p \<in> set PS. projectHit cp p \<and> goalHit (p_id p) cg g)
      = (\<exists>p \<in> set PS1. projectHit cp p \<and> goalHit (p_id p) cg g1)"
  proof (rule bex_transfer[OF ps])
    fix x y assume f: "sameProjectFrame x y"
    then have "p_id y = p_id x" by (simp add: sameProjectFrame_def)
    then show "(projectHit cp x \<and> goalHit (p_id x) cg g) = (projectHit cp y \<and> goalHit (p_id y) cg g1)"
      using projectHit_frame[OF f] goalHit_frame[OF g] by simp
  qed
  then show ?thesis unfolding projectGoalHit_def by simp
qed

lemma projectCovers_frames:
  assumes ps: "list_all2 sameProjectFrame PS PS1" and gs: "list_all2 sameGoalFrame GS GS1"
    and t: "sameTaskFrame t t1"
  shows "projectCovers PS1 GS1 cp cg t1 = projectCovers PS GS cp cg t"
proof -
  have "(\<exists>p \<in> set PS. projectHit cp p \<and> goalCovers (p_id p) GS cg t)
      = (\<exists>p \<in> set PS1. projectHit cp p \<and> goalCovers (p_id p) GS1 cg t1)"
  proof (rule bex_transfer[OF ps])
    fix x y assume f: "sameProjectFrame x y"
    then have "p_id y = p_id x" by (simp add: sameProjectFrame_def)
    then show "(projectHit cp x \<and> goalCovers (p_id x) GS cg t)
             = (projectHit cp y \<and> goalCovers (p_id y) GS1 cg t1)"
      using projectHit_frame[OF f] goalCovers_frames[OF gs t] by simp
  qed
  then show ?thesis unfolding projectCovers_def by simp
qed

text \<open>The same client tasks applied to a row a second time.\<close>

lemma taskAfter_twice:
  assumes a: "taskAfter gid cts t t1" and b: "taskAfter gid cts t1 t2"
  shows "withoutStamp t2 = withoutStamp t1"
proof -
  have f: "sameTaskFrame t t1" using a by (rule taskAfter_frame)
  have same: "(\<lambda>ct. taskHit gid ct t1) = (\<lambda>ct. taskHit gid ct t)"
    using taskHit_frame[OF f] by simp
  show ?thesis
  proof (cases "lastHit (\<lambda>ct. taskHit gid ct t) cts")
    case None
    with b same have "t2 = t1" by (simp add: taskAfter_def)
    then show ?thesis by simp
  next
    case (Some ct)
    with a have c1: "taskContent t1 = taskDataOf ct" by (simp add: taskAfter_def)
    from Some b same have c2: "taskContent t2 = taskDataOf ct" by (simp add: taskAfter_def)
    show ?thesis
      by (rule withoutStamp_eq[OF taskAfter_frame[OF b]]) (simp add: c1 c2)
  qed
qed

lemma projectsHitCount_frames:
  assumes ps: "list_all2 sameProjectFrame PS PS1" and gs: "list_all2 sameGoalFrame GS GS1"
    and ts: "list_all2 sameTaskFrame TS TS1"
  shows "projectsHitCount PS1 GS1 TS1 cps = projectsHitCount PS GS TS cps"
proof -
  have a: "(\<exists>p \<in> set PS1. p_id p = pid) = (\<exists>p \<in> set PS. p_id p = pid)" for pid
    by (rule bex_transfer[OF ps, symmetric]) (simp add: sameProjectFrame_def)
  have b: "goalsHitCount pid GS1 TS1 cgs = goalsHitCount pid GS TS cgs" for pid cgs
    using gs ts by (rule goalsHitCount_frames)
  show ?thesis unfolding projectsHitCount_def
    by (simp add: a b cong: option.case_cong if_cong)
qed

text \<open>The second of two passes with the same client projects.\<close>

lemma second_pass:
  assumes relP1: "list_all2 (projAfter cps) PS PS1"
    and relG1: "list_all2 (goalAfterAll PS cps) GS GS1"
    and relT1: "list_all2 (taskAfterAll PS GS cps) TS TS1"
    and relP2: "list_all2 (projAfter cps) PS1 PS2"
    and relG2: "list_all2 (goalAfterAll PS1 cps) GS1 GS2"
    and relT2: "list_all2 (taskAfterAll PS1 GS1 cps) TS1 TS2"
  shows "\<forall>cp \<in> set cps. \<forall>p \<in> set PS1. projectHit cp p \<longrightarrow> p_name p = cp_name cp"
    and "\<forall>cp \<in> set cps. \<forall>cg \<in> set (cp_goals cp). \<forall>g \<in> set GS1.
           projectGoalHit PS1 cp cg g \<longrightarrow> g_name g = cg_name cg"
    and "PS2 = PS1" and "GS2 = GS1"
    and "map withoutStamp TS2 = map withoutStamp TS1"
proof -
  have frP: "list_all2 sameProjectFrame PS PS1" using relP1 by (rule projAfter_frames)
  have frG: "list_all2 sameGoalFrame GS GS1" using relG1 by (rule goalAfterAll_frames)
  have setP: "p_name p1 = cp_name cp"
    if "cp \<in> set cps" "p1 \<in> set PS1" "projectHit cp p1" for cp p1
  proof -
    from list_all2_setD2[OF relP1 that(2)] obtain p where p: "projAfter cps p p1" by blast
    have "projectHit cp p" using that(3) projectHit_frame[OF projAfter_D(1)[OF p]] by simp
    with p that(1) show ?thesis by (rule projAfter_D(2))
  qed
  have setG: "g_name g1 = cg_name cg"
    if "cp \<in> set cps" "cg \<in> set (cp_goals cp)" "g1 \<in> set GS1" "projectGoalHit PS1 cp cg g1"
    for cp cg g1
  proof -
    from list_all2_setD2[OF relG1 that(3)] obtain g where g: "goalAfterAll PS cps g g1" by blast
    have "projectGoalHit PS cp cg g"
      using that(4) projectGoalHit_frames[OF frP goalAfterAll_D(1)[OF g]] by simp
    with g that(1,2) show ?thesis by (rule goalAfterAll_D(2))
  qed
  show "\<forall>cp \<in> set cps. \<forall>p \<in> set PS1. projectHit cp p \<longrightarrow> p_name p = cp_name cp"
    using setP by simp
  show "\<forall>cp \<in> set cps. \<forall>cg \<in> set (cp_goals cp). \<forall>g \<in> set GS1.
           projectGoalHit PS1 cp cg g \<longrightarrow> g_name g = cg_name cg"
    using setG by simp
  have "map (\<lambda>p. p) PS2 = map (\<lambda>p. p) PS1"
    using relP2
  proof (rule list_all2_same)
    fix p1 p2 assume m: "p1 \<in> set PS1" and r: "projAfter cps p1 p2"
    show "p2 = p1"
    proof (rule projAfter_D(3)[OF r])
      fix c assume "c \<in> set cps" "projectHit c p1"
      then show "p_name p1 = cp_name c" using setP m by simp
    qed
  qed
  then show "PS2 = PS1" by simp
  have "map (\<lambda>g. g) GS2 = map (\<lambda>g. g) GS1"
    using relG2
  proof (rule list_all2_same)
    fix g1 g2 assume m: "g1 \<in> set GS1" and r: "goalAfterAll PS1 cps g1 g2"
    show "g2 = g1"
    proof (rule goalAfterAll_D(3)[OF r])
      fix c cg assume "c \<in> set cps" "cg \<in> set (cp_goals c)" "projectGoalHit PS1 c cg g1"
      then show "g_name g1 = cg_name cg" using setG m by simp
    qed
  qed
  then show "GS2 = GS1" by simp
  show "map withoutStamp TS2 = map withoutStamp TS1"
    using relT2
  proof (rule list_all2_same)
    fix t1 t2 assume m: "t1 \<in> set TS1" and r: "taskAfterAll PS1 GS1 cps t1 t2"
    from list_all2_setD2[OF relT1 m] obtain t where t: "taskAfterAll PS GS cps t t1" by blast
    have fr: "sameTaskFrame t t1" using t by (rule taskAfterAll_D(1))
    have gt: "t_goalId t1 = t_goalId t" using fr by (simp add: sameTaskFrame_def)
    show "withoutStamp t2 = withoutStamp t1"
    proof (cases "\<exists>c \<in> set cps. \<exists>cg \<in> set (cp_goals c). projectCovers PS1 GS1 c cg t1")
      case True
      then obtain c cg where h: "c \<in> set cps" "cg \<in> set (cp_goals c)"
        "projectCovers PS1 GS1 c cg t1" by blast
      have b2: "taskAfter (t_goalId t1) (cg_tasks cg) t1 t2" using r h by (rule taskAfterAll_D(2))
      have "projectCovers PS GS c cg t"
        using h(3) projectCovers_frames[OF frP frG fr] by simp
      with t h(1,2) have b1: "taskAfter (t_goalId t) (cg_tasks cg) t t1" by (rule taskAfterAll_D(2))
      from b1 b2[unfolded gt] show ?thesis by (rule taskAfter_twice)
    next
      case False
      have "t2 = t1"
      proof (rule taskAfterAll_D(3)[OF r])
        fix c cg assume "c \<in> set cps" "cg \<in> set (cp_goals c)"
        then show "\<not> projectCovers PS1 GS1 c cg t1" using False by blast
      qed
      then show ?thesis by simp
    qed
  qed
qed

lemma syncData_run:
  assumes "forEach syncProject (req_projects req) (s, noResults) = Inr (\<sigma>, r)"
  shows "syncData req s =
           Inr (\<lparr>syncResults = r, serverState = project_findMany \<sigma>, syncedAt = fst (now \<sigma>)\<rparr>,
                snd (now \<sigma>))"
  using assms by (simp add: syncData_def Let_def split_beta)

text \<open>
  C3 says that submitting the same snapshot twice, all entities carrying ids that match
  server entities, yields an identical \<open>serverState\<close> after the second call, and that the
  \<open>updated\<close> counts of the second call are zero when the submitted content already matches
  the server values, or equal to the counts of the first call when it differs. The task
  update of the reconciler is unconditional (``always update with client data''): with
  the snapshot of \<open>demoStore\<close> that has the content of the server, both calls count one
  updated task, and the \<open>serverState\<close> of the second call differs from that of the first
  in the \<open>updatedAt\<close> of the task. With the snapshot that renames the project and ticks
  the task off, the first call counts one project and one task, the second no project
  and one task: neither zero nor the counts of the first call.
\<close>

theorem sync_twice_counts_matching_content:
  "(case syncData sameRequest demoStore of
      Inl e \<Rightarrow> False
    | Inr (resp1, s1) \<Rightarrow>
        (case syncData sameRequest s1 of
           Inl e \<Rightarrow> False
         | Inr (resp2, s2) \<Rightarrow>
             map (\<lambda>pg. (p_name (fst pg),
                    map (\<lambda>gt. (g_name (fst gt), map taskContent (snd gt))) (snd pg)))
               (project_findMany demoStore) =
               map (\<lambda>cp. (cp_name cp,
                      map (\<lambda>cg. (cg_name cg, map taskDataOf (cg_tasks cg))) (cp_goals cp)))
                 (req_projects sameRequest) \<and>
             updated (syncResults resp1) = \<lparr>n_projects = 0, n_goals = 0, n_tasks = 1\<rparr> \<and>
             updated (syncResults resp2) = \<lparr>n_projects = 0, n_goals = 0, n_tasks = 1\<rparr> \<and>
             serverState resp2 \<noteq> serverState resp1 \<and>
             map (\<lambda>t. t_updatedAt t) (tasks s1) = [1001] \<and>
             map (\<lambda>t. t_updatedAt t) (tasks s2) = [1003])) \<and>
   (case syncData renamedRequest demoStore of
      Inl e \<Rightarrow> False
    | Inr (resp1, s1) \<Rightarrow>
        (case syncData renamedRequest s1 of
           Inl e \<Rightarrow> False
         | Inr (resp2, s2) \<Rightarrow>
             updated (syncResults resp1) = \<lparr>n_projects = 1, n_goals = 0, n_tasks = 1\<rparr> \<and>
             updated (syncResults resp2) = \<lparr>n_projects = 0, n_goals = 0, n_tasks = 1\<rparr>))"
  by code_simp

text \<open>
  C3 as amended. When no statement fails, the ids of each table are unique (they are
  primary keys), every entity of the snapshot carries an id and the snapshot names no
  project and no goal twice, then both calls return; neither creates anything; the
  second call updates no project and no goal; the first call counts one updated task
  for every client task that finds its row (\<open>projectsHitCount\<close>), whatever its content,
  and the second call counts as many; and the \<open>serverState\<close> of the second call is that
  of the first, except for the \<open>updatedAt\<close> of the tasks.
\<close>

theorem sync_twice:
  assumes ok: "writesUntilFailure s = None"
    and pkP: "distinct (map p_id (projects s))"
    and pkG: "distinct (map g_id (goals s))"
    and pkT: "distinct (map t_id (tasks s))"
    and pres: "idsPresent (req_projects req)"
    and dist: "idsDistinct (req_projects req)"
  shows "\<exists>resp1 s1 resp2 s2.
           syncData req s = Inr (resp1, s1) \<and> syncData req s1 = Inr (resp2, s2) \<and>
           created (syncResults resp1) = \<lparr>n_projects = 0, n_goals = 0, n_tasks = 0\<rparr> \<and>
           created (syncResults resp2) = \<lparr>n_projects = 0, n_goals = 0, n_tasks = 0\<rparr> \<and>
           n_projects (updated (syncResults resp2)) = 0 \<and>
           n_goals (updated (syncResults resp2)) = 0 \<and>
           n_tasks (updated (syncResults resp1)) =
             projectsHitCount (projects s) (goals s) (tasks s) (req_projects req) \<and>
           n_tasks (updated (syncResults resp2)) = n_tasks (updated (syncResults resp1)) \<and>
           withoutTaskStamps (serverState resp2) = withoutTaskStamps (serverState resp1)"
proof -
  let ?cps = "req_projects req"
  from projectLoop[OF ok pkP pkG pkT pres dist, where r = noResults]
  obtain \<sigma>1 r1 where run1: "forEach syncProject ?cps (s, noResults) = Inr (\<sigma>1, r1)"
    and ok1: "writesUntilFailure \<sigma>1 = None"
    and relP1: "list_all2 (projAfter ?cps) (projects s) (projects \<sigma>1)"
    and relG1: "list_all2 (goalAfterAll (projects s) ?cps) (goals s) (goals \<sigma>1)"
    and relT1: "list_all2 (taskAfterAll (projects s) (goals s) ?cps) (tasks s) (tasks \<sigma>1)"
    and c1: "created r1 = created noResults"
    and nt1: "n_tasks (updated r1) = n_tasks (updated noResults) +
                projectsHitCount (projects s) (goals s) (tasks s) ?cps"
    apply (elim exE conjE) apply (rule that) apply assumption+ done
  let ?s1 = "snd (now \<sigma>1)"
  have frP: "list_all2 sameProjectFrame (projects s) (projects \<sigma>1)"
    using relP1 by (rule projAfter_frames)
  have frG: "list_all2 sameGoalFrame (goals s) (goals \<sigma>1)"
    using relG1 by (rule goalAfterAll_frames)
  have frT: "list_all2 sameTaskFrame (tasks s) (tasks \<sigma>1)"
    using relT1 by (rule taskAfterAll_frames)
  have ok1': "writesUntilFailure ?s1 = None" using ok1 by simp
  have pkP1: "distinct (map p_id (projects ?s1))" using projFrames_ids[OF frP] pkP by simp
  have pkG1: "distinct (map g_id (goals ?s1))" using goalFrames_ids[OF frG] pkG by simp
  have pkT1: "distinct (map t_id (tasks ?s1))" using taskFrames_ids[OF frT] pkT by simp
  from projectLoop[OF ok1' pkP1 pkG1 pkT1 pres dist, where r = noResults]
  obtain \<sigma>2 r2 where run2: "forEach syncProject ?cps (?s1, noResults) = Inr (\<sigma>2, r2)"
    and relP2': "list_all2 (projAfter ?cps) (projects ?s1) (projects \<sigma>2)"
    and relG2': "list_all2 (goalAfterAll (projects ?s1) ?cps) (goals ?s1) (goals \<sigma>2)"
    and relT2': "list_all2 (taskAfterAll (projects ?s1) (goals ?s1) ?cps) (tasks ?s1) (tasks \<sigma>2)"
    and c2: "created r2 = created noResults"
    and nt2: "n_tasks (updated r2) = n_tasks (updated noResults) +
                projectsHitCount (projects ?s1) (goals ?s1) (tasks ?s1) ?cps"
    and np2: "(\<forall>cp \<in> set ?cps. \<forall>p \<in> set (projects ?s1). projectHit cp p
                 \<longrightarrow> p_name p = cp_name cp)
              \<longrightarrow> n_projects (updated r2) = n_projects (updated noResults)"
    and ng2: "(\<forall>cp \<in> set ?cps. \<forall>cg \<in> set (cp_goals cp). \<forall>g \<in> set (goals ?s1).
                 projectGoalHit (projects ?s1) cp cg g \<longrightarrow> g_name g = cg_name cg)
              \<longrightarrow> n_goals (updated r2) = n_goals (updated noResults)"
    apply (elim exE conjE) apply (rule that) apply assumption+ done
  have relP2: "list_all2 (projAfter ?cps) (projects \<sigma>1) (projects \<sigma>2)"
    using relP2' by simp
  have relG2: "list_all2 (goalAfterAll (projects \<sigma>1) ?cps) (goals \<sigma>1) (goals \<sigma>2)"
    using relG2' by simp
  have relT2: "list_all2 (taskAfterAll (projects \<sigma>1) (goals \<sigma>1) ?cps) (tasks \<sigma>1) (tasks \<sigma>2)"
    using relT2' by simp
  note sp = second_pass[OF relP1 relG1 relT1 relP2 relG2 relT2]
  have np: "n_projects (updated r2) = 0"
    using np2 sp(1) by (simp add: noResults_def)
  have ng: "n_goals (updated r2) = 0"
    using ng2 sp(2) by (simp add: noResults_def)
  have nt: "n_tasks (updated r2) = n_tasks (updated r1)"
    using nt1 nt2 projectsHitCount_frames[OF frP frG frT, of ?cps] by simp
  have view: "withoutTaskStamps (project_findMany \<sigma>2) = withoutTaskStamps (project_findMany \<sigma>1)"
    using sp(3) sp(4) sp(5) by (rule findMany_withoutTaskStamps)
  let ?resp1 = "\<lparr>syncResults = r1, serverState = project_findMany \<sigma>1, syncedAt = fst (now \<sigma>1)\<rparr>"
  let ?resp2 = "\<lparr>syncResults = r2, serverState = project_findMany \<sigma>2, syncedAt = fst (now \<sigma>2)\<rparr>"
  show ?thesis
    apply (rule exI[of _ ?resp1], rule exI[of _ ?s1])
    apply (rule exI[of _ ?resp2], rule exI[of _ "snd (now \<sigma>2)"])
    apply (intro conjI)
            apply (rule syncData_run[OF run1])
           apply (rule syncData_run[OF run2])
          apply (simp add: c1 noResults_def)
         apply (simp add: c2 noResults_def)
        apply (simp add: np)
       apply (simp add: ng)
      apply (simp add: nt1 noResults_def)
     apply (simp add: nt)
    apply (simp add: view)
    done
qed

theorem sync_twice_witness:
  "\<exists>resp1 s1 resp2 s2.
     syncData renamedRequest demoStore = Inr (resp1, s1) \<and>
     syncData renamedRequest s1 = Inr (resp2, s2) \<and>
     created (syncResults resp1) = \<lparr>n_projects = 0, n_goals = 0, n_tasks = 0\<rparr> \<and>
     created (syncResults resp2) = \<lparr>n_projects = 0, n_goals = 0, n_tasks = 0\<rparr> \<and>
     n_projects (updated (syncResults resp2)) = 0 \<and>
     n_goals (updated (syncResults resp2)) = 0 \<and>
     n_tasks (updated (syncResults resp1)) = 1 \<and>
     n_tasks (updated (syncResults resp2)) = n_tasks (updated (syncResults resp1)) \<and>
     withoutTaskStamps (serverState resp2) = withoutTaskStamps (serverState resp1)"
proof -
  have ok: "writesUntilFailure demoStore = None" by (simp add: demoStore_def)
  have pkP: "distinct (map p_id (projects demoStore))"
    by (simp add: demoStore_def workProject_def oldProject_def)
  have pkG: "distinct (map g_id (goals demoStore))" by (simp add: demoStore_def)
  have pkT: "distinct (map t_id (tasks demoStore))" by (simp add: demoStore_def)
  have pres: "idsPresent (req_projects renamedRequest)"
    by (simp add: idsPresent_def renamedRequest_def knownProject_def doneTask_def)
  have dist: "idsDistinct (req_projects renamedRequest)"
    by (simp add: idsDistinct_def renamedRequest_def knownProject_def doneTask_def)
  have cnt: "projectsHitCount (projects demoStore) (goals demoStore) (tasks demoStore)
               (req_projects renamedRequest) = 1"
    by code_simp
  show ?thesis using sync_twice[OF ok pkP pkG pkT pres dist] unfolding cnt .
qed

text \<open>
  A snapshot that names a goal or a project twice is outside the amended statement, and
  the original one fails for it in the names as well. A goal named twice is renamed by
  the second client goal in the first call and by the first one in the second call
  (the names compared are those read before the loop), so the two responses differ in
  the name of the goal and the second call counts an updated goal. A project named twice
  is renamed once in the first call and twice in the second.
\<close>

lemma sync_twice_needs_distinct_ids:
  "(case syncData twinGoalsRequest demoStore of
      Inl e \<Rightarrow> False
    | Inr (resp1, s1) \<Rightarrow>
        (case syncData twinGoalsRequest s1 of
           Inl e \<Rightarrow> False
         | Inr (resp2, s2) \<Rightarrow>
             map g_name (goals s1) = [''Shipped''] \<and> map g_name (goals s2) = [''Ship''] \<and>
             n_goals (updated (syncResults resp2)) = 1 \<and>
             withoutTaskStamps (serverState resp2) \<noteq> withoutTaskStamps (serverState resp1))) \<and>
   (case syncData twinProjectsRequest demoStore of
      Inl e \<Rightarrow> False
    | Inr (resp1, s1) \<Rightarrow>
        (case syncData twinProjectsRequest s1 of
           Inl e \<Rightarrow> False
         | Inr (resp2, s2) \<Rightarrow>
             n_projects (updated (syncResults resp1)) = 1 \<and>
             n_projects (updated (syncResults resp2)) = 2))"
  by code_simp

end
